theory Spec2Isabelle
  imports Main "HOL-Library.AList"
begin

section \<open>Python and numpy primitives used by topology_numpy.py\<close>

text \<open>
  The arrays of the module hold numpy \<open>int64\<close> values. They are modelled as \<open>int\<close>, and every
  numpy operation that computes a new entry reduces it with \<open>wrap64\<close>, the two's complement
  wrap-around of 64 bits. Exceptions are values of \<open>error\<close> on the left of a sum.
\<close>

datatype error = ValueError | IndexError

definition wrap64 :: "int \<Rightarrow> int" where
  "wrap64 x = (x + 2 ^ 63) mod 2 ^ 64 - 2 ^ 63"

text \<open>\<open>2 ** e\<close> on an int64 entry; numpy raises ValueError on a negative exponent, which the
  callers check before they use \<open>np_pow2\<close>.\<close>

definition np_pow2 :: "int \<Rightarrow> int" where
  "np_pow2 e = wrap64 (2 ^ nat e)"

text \<open>\<open>np.unique\<close>: the sorted distinct entries of the flattened array.\<close>

definition np_unique :: "int list \<Rightarrow> int list" where
  "np_unique xs = sort (remdups xs)"

text \<open>\<open>xs[0]\<close>, which raises IndexError on an empty sequence.\<close>

fun first :: "'a list \<Rightarrow> error + 'a" where
  "first [] = Inl IndexError"
| "first (x # xs) = Inr x"

text \<open>A for loop whose body may raise: the first exception ends the loop.\<close>

fun fold_err :: "('a \<Rightarrow> 's \<Rightarrow> error + 's) \<Rightarrow> 'a list \<Rightarrow> 's \<Rightarrow> error + 's" where
  "fold_err f [] s = Inr s"
| "fold_err f (x # xs) s = (case f x s of Inl e \<Rightarrow> Inl e | Inr s' \<Rightarrow> fold_err f xs s')"

subsection \<open>Slices\<close>

text \<open>
  \<open>slice(start, stop)\<close> with step 1; \<open>None\<close> is an omitted bound. A negative bound counts
  from the end, and every bound is clamped to the sequence, as Python does.
\<close>

type_synonym slice = "int option \<times> int option"

definition norm_idx :: "nat \<Rightarrow> int \<Rightarrow> nat" where
  "norm_idx len i = (if i < 0 then nat (max 0 (int len + i)) else min len (nat i))"

definition slice_start :: "slice \<Rightarrow> nat \<Rightarrow> nat" where
  "slice_start sl len = (case fst sl of None \<Rightarrow> 0 | Some i \<Rightarrow> norm_idx len i)"

definition slice_stop :: "slice \<Rightarrow> nat \<Rightarrow> nat" where
  "slice_stop sl len = (case snd sl of None \<Rightarrow> len | Some j \<Rightarrow> norm_idx len j)"

definition py_slice :: "slice \<Rightarrow> 'a list \<Rightarrow> 'a list" where
  "py_slice sl xs = drop (slice_start sl (length xs)) (take (slice_stop sl (length xs)) xs)"

definition full :: slice where
  "full = (None, None)"

subsection \<open>Binary strings\<close>

text \<open>\<open>bin(n)[2:]\<close> for a natural number: its binary digits, most significant first.\<close>

fun bin_nat :: "nat \<Rightarrow> string" where
  "bin_nat n =
     (if n < 2 then [if n = 0 then CHR ''0'' else CHR ''1'']
      else bin_nat (n div 2) @ [if n mod 2 = 0 then CHR ''0'' else CHR ''1''])"

declare bin_nat.simps [simp del]

text \<open>\<open>np.binary_repr(num)\<close> without a width: a negative number gets a minus sign.\<close>

definition binary_repr :: "int \<Rightarrow> string" where
  "binary_repr num = (if num < 0 then CHR ''-'' # bin_nat (nat (- num)) else bin_nat (nat num))"

text \<open>\<open>str.zfill(width)\<close>: zeros are inserted after a leading sign; a string that is long
  enough is returned as it is.\<close>

definition zfill :: "nat \<Rightarrow> string \<Rightarrow> string" where
  "zfill width s =
     (if width \<le> length s then s
      else case s of
             c # cs \<Rightarrow>
               if c = CHR ''+'' \<or> c = CHR ''-''
               then c # replicate (width - length s) CHR ''0'' @ cs
               else replicate (width - length s) CHR ''0'' @ s
           | [] \<Rightarrow> replicate width CHR ''0'')"

text \<open>\<open>sub in k\<close> on strings: \<open>sub\<close> occurs in \<open>k\<close> as a contiguous substring.\<close>

fun str_in :: "string \<Rightarrow> string \<Rightarrow> bool" where
  "str_in sub [] = (sub = [])"
| "str_in sub (c # cs) = (take (length sub) (c # cs) = sub \<or> str_in sub cs)"

section \<open>get_labels_block\<close>

text \<open>
  \<open>lb\<close> is the flat lithology array and \<open>fb\<close> the stack of flat fault arrays, one row per
  fault, as \<open>lithblock_to_lb_fb\<close> serves them. The statements \<open>fb -= 1\<close> and
  \<open>fb += np.arange(n_faults)[None, :].T\<close> update the caller's array in place, so the model
  returns the contents of \<open>fb\<close> after the call next to the result. \<open>lb\<close> is only rebound to a
  new array. The exceptions are those of \<open>lb.min()\<close> on an empty array, of
  \<open>np.concatenate\<close> on rows of different lengths and of \<open>2 **\<close> on a negative entry.
  The sum along the stacking axis is reduced once: \<open>wrap64\<close> after every addition gives
  the same entry (lemma \<open>wrap64_add\<close> below).
\<close>

definition get_labels_block :: "int list \<Rightarrow> int list list \<Rightarrow> int list list \<times> (error + int list)" where
  "get_labels_block lb fb =
     (let n_faults = length fb;
          fb1 = map (map (\<lambda>x. wrap64 (x - 1))) fb;
          fb2 = map (\<lambda>i. map (\<lambda>x. wrap64 (x + int i)) (fb1 ! i)) [0..<n_faults]
      in (fb2,
          if lb = [] then Inl ValueError
          else
            let lb2 = map (\<lambda>x. wrap64 (wrap64 (wrap64 (x - Min (set lb)) + int n_faults) + 2)) lb;
                stacked = lb2 # fb2
            in if \<exists>row \<in> set fb2. length row \<noteq> length lb then Inl ValueError
               else if \<exists>row \<in> set stacked. \<exists>e \<in> set row. e < 0 then Inl ValueError
               else Inr (map (\<lambda>v. wrap64 (sum_list (map (\<lambda>row. np_pow2 (row ! v)) stacked)))
                           [0..<length lb])))"

text \<open>The number of set bits of a label, read off its binary representation.\<close>

definition bit_count :: "int \<Rightarrow> nat" where
  "bit_count l = length (filter (\<lambda>c. c = CHR ''1'') (binary_repr l))"

section \<open>Three-dimensional arrays\<close>

text \<open>
  A block of shape \<open>(nx, ny, nz)\<close> is a list of \<open>nx\<close> planes of \<open>ny\<close> rows of \<open>nz\<close> entries.
  \<open>a[sx, sy, sz]\<close> slices the three axes.
\<close>

type_synonym arr3 = "int list list list"

definition index3 :: "slice \<times> slice \<times> slice \<Rightarrow> 'a list list list \<Rightarrow> 'a list list list" where
  "index3 s a =
     (case s of (sx, sy, sz) \<Rightarrow> map (\<lambda>plane. map (py_slice sz) (py_slice sy plane)) (py_slice sx a))"

definition flat3 :: "'a list list list \<Rightarrow> 'a list" where
  "flat3 a = concat (concat a)"

definition same_shape3 :: "'a list list list \<Rightarrow> 'b list list list \<Rightarrow> bool" where
  "same_shape3 a b = list_all2 (list_all2 (\<lambda>r1 r2. length r1 = length r2)) a b"

text \<open>
  \<open>a + b\<close> entry by entry. For \<open>n_shift \<ge> 1\<close>, the range the callers use, the two operands
  of every sum in \<open>get_topo_block\<close> have the same shape; operands of different shapes raise
  ValueError (numpy's stretching of an axis of length 1 can only arise for \<open>n_shift \<le> 0\<close>
  and is left out).
\<close>

definition np_add3 :: "arr3 \<Rightarrow> arr3 \<Rightarrow> error + arr3" where
  "np_add3 a b =
     (if same_shape3 a b then Inr (map2 (map2 (map2 (\<lambda>x y. wrap64 (x + y)))) a b)
      else Inl ValueError)"

definition np_abs3 :: "arr3 \<Rightarrow> arr3" where
  "np_abs3 a = map (map (map (\<lambda>x. wrap64 \<bar>x\<bar>))) a"

text \<open>\<open>a[topo == v]\<close>: the entries of \<open>a\<close> at the positions where \<open>topo\<close> holds \<open>v\<close>, in
  storage order. numpy raises IndexError unless the boolean array has the shape of \<open>a\<close>.\<close>

definition masked :: "arr3 \<Rightarrow> arr3 \<Rightarrow> int \<Rightarrow> int list" where
  "masked a topo v = map fst (filter (\<lambda>(x, t). t = v) (zip (flat3 a) (flat3 topo)))"

definition bool_index :: "arr3 \<Rightarrow> arr3 \<Rightarrow> int \<Rightarrow> error + int list" where
  "bool_index a topo v = (if same_shape3 a topo then Inr (masked a topo v) else Inl IndexError)"

section \<open>get_topo_block\<close>

definition get_topo_block :: "arr3 \<Rightarrow> int \<Rightarrow> error + arr3 list" where
  "get_topo_block labels n_shift =
     (case np_add3 (index3 ((Some n_shift, None), full, full) labels)
                   (index3 ((None, Some (- n_shift)), full, full) labels) of
        Inl e \<Rightarrow> Inl e
      | Inr sx \<Rightarrow>
     (case np_add3 (index3 (full, (Some n_shift, None), full) labels)
                   (index3 (full, (None, Some (- n_shift)), full) labels) of
        Inl e \<Rightarrow> Inl e
      | Inr sy \<Rightarrow>
     (case np_add3 (index3 (full, full, (Some n_shift, None)) labels)
                   (index3 (full, full, (None, Some (- n_shift))) labels) of
        Inl e \<Rightarrow> Inl e
      | Inr sz \<Rightarrow>
        let sum_x = np_abs3 sx; sum_y = np_abs3 sy; sum_z = np_abs3 sz;
            sl = (Some (n_shift div 2), Some (- n_shift div 2));
            tx = index3 (full, sl, sl) sum_x;
            ty = index3 (sl, full, sl) sum_y;
            tz = index3 (sl, sl, full) sum_z
        in if same_shape3 tx ty \<and> same_shape3 ty tz then Inr [tx, ty, tz]
           else Inl ValueError)))"

section \<open>get_edges\<close>

text \<open>
  The set \<open>edges\<close> of tuples is a list without repetition; \<open>edges.add\<close> is \<open>List.insert\<close>.
  \<open>slicers[i]\<close> raises IndexError for \<open>i \<ge> 3\<close>, \<open>shift_1[filter_]\<close> raises IndexError when
  the shapes differ, and \<open>[0]\<close> raises IndexError on an empty array.
\<close>

definition slicers :: "int \<Rightarrow> ((slice \<times> slice \<times> slice) \<times> (slice \<times> slice \<times> slice)) list" where
  "slicers n_shift =
     (let slice_fit = (Some (n_shift - 1), Some (- n_shift))
      in [(((Some n_shift, None), slice_fit, slice_fit),
           ((None, Some (- n_shift)), slice_fit, slice_fit)),
          ((slice_fit, (Some n_shift, None), slice_fit),
           (slice_fit, (None, Some (- n_shift)), slice_fit)),
          ((slice_fit, slice_fit, (Some n_shift, None)),
           (slice_fit, slice_fit, (None, Some (- n_shift))))])"

definition shift_1 :: "arr3 \<Rightarrow> int \<Rightarrow> nat \<Rightarrow> arr3" where
  "shift_1 labels_block n_shift i = index3 (fst (slicers n_shift ! i)) labels_block"

definition shift_2 :: "arr3 \<Rightarrow> int \<Rightarrow> nat \<Rightarrow> arr3" where
  "shift_2 labels_block n_shift i = index3 (snd (slicers n_shift ! i)) labels_block"

definition edge_step ::
  "arr3 \<Rightarrow> int \<Rightarrow> nat \<Rightarrow> arr3 \<Rightarrow> int \<Rightarrow> (int \<times> int) list \<Rightarrow> error + (int \<times> int) list" where
  "edge_step labels_block n_shift i topo_block_dir edge_sum edges =
     (if edge_sum = 0 then Inr edges
      else if length (slicers n_shift) \<le> i then Inl IndexError
      else
        case bool_index (shift_1 labels_block n_shift i) topo_block_dir edge_sum of
          Inl e \<Rightarrow> Inl e
        | Inr v1 \<Rightarrow>
       (case first (np_unique v1) of
          Inl e \<Rightarrow> Inl e
        | Inr a \<Rightarrow>
       (case bool_index (shift_2 labels_block n_shift i) topo_block_dir edge_sum of
          Inl e \<Rightarrow> Inl e
        | Inr v2 \<Rightarrow>
       (case first (np_unique v2) of
          Inl e \<Rightarrow> Inl e
        | Inr b \<Rightarrow> Inr (List.insert (a, b) edges)))))"

definition get_edges :: "arr3 list \<Rightarrow> arr3 \<Rightarrow> int \<Rightarrow> error + (int \<times> int) list" where
  "get_edges topo_block_f labels_block n_shift =
     fold_err
       (\<lambda>(i, topo_block_dir) edges.
          fold_err (edge_step labels_block n_shift i topo_block_dir)
            (np_unique (flat3 topo_block_dir)) edges)
       (enumerate 0 topo_block_f) []"

section \<open>get_lith_lot\<close>

text \<open>
  A dict is an association list in insertion order; \<open>d[k] = v\<close> is \<open>AList.update\<close>, which
  overwrites the value of a key that is present and appends a new key. \<open>n_faults\<close> and
  \<open>n_layers\<close> are counts, and \<open>labels\<close> is the list of the entries of the block, which
  the function only hands to \<open>np.unique\<close>. The function has no statement that raises.
\<close>

definition layer_ids :: "nat \<Rightarrow> nat \<Rightarrow> (string \<times> nat) list" where
  "layer_ids n_faults n_layers =
     foldl (\<lambda>d i. AList.update (zfill (n_faults * 2 + n_layers) (binary_repr (2 ^ i))) i d) []
       [n_faults * 2 ..< n_faults * 2 + n_layers]"

definition node_bin_nofault :: "nat \<Rightarrow> nat \<Rightarrow> int \<Rightarrow> string" where
  "node_bin_nofault n_faults n_layers node =
     (let node_bin = zfill (n_faults * 2 + n_layers) (binary_repr node)
      in py_slice (None, Some (- int n_faults * 2)) node_bin @ replicate (n_faults * 2) CHR ''0'')"

definition get_lith_lot :: "int list \<Rightarrow> nat \<Rightarrow> nat \<Rightarrow> (int \<times> nat) list" where
  "get_lith_lot labels n_faults n_layers =
     foldl
       (\<lambda>lot node.
          foldl (\<lambda>lot (k, v).
                   if str_in (node_bin_nofault n_faults n_layers node) k
                   then AList.update node v lot else lot)
            lot (layer_ids n_faults n_layers))
       [] (np_unique labels)"

section \<open>get_adj_matrix\<close>

text \<open>
  \<open>edges\<close> is the collection of tuples in the order of its iteration, and \<open>labels\<close> the list
  of the entries of the block. \<open>adj_matrix_labels[0]\<close> raises IndexError on an empty list.
\<close>

text \<open>\<open>list.index\<close>: the position of the first occurrence, ValueError when there is none.\<close>

fun index_of :: "'a list \<Rightarrow> 'a \<Rightarrow> error + nat" where
  "index_of [] x = Inl ValueError"
| "index_of (y # ys) x =
     (if y = x then Inr 0 else case index_of ys x of Inl e \<Rightarrow> Inl e | Inr i \<Rightarrow> Inr (Suc i))"

definition set_true :: "bool list list \<Rightarrow> nat \<Rightarrow> nat \<Rightarrow> bool list list" where
  "set_true m i j = m[i := (m ! i)[j := True]]"

definition edge_entry :: "string list \<Rightarrow> nat \<Rightarrow> int \<times> int \<Rightarrow> bool list list \<Rightarrow> error + bool list list" where
  "edge_entry adj_matrix_labels n_entities e m =
     (case index_of adj_matrix_labels (zfill n_entities (binary_repr (fst e))) of
        Inl err \<Rightarrow> Inl err
      | Inr i \<Rightarrow>
     (case index_of adj_matrix_labels (zfill n_entities (binary_repr (snd e))) of
        Inl err \<Rightarrow> Inl err
      | Inr j \<Rightarrow> Inr (set_true (set_true m i j) j i)))"

definition diag_entry :: "string list \<Rightarrow> string \<Rightarrow> bool list list \<Rightarrow> error + bool list list" where
  "diag_entry adj_matrix_labels bin_label m =
     (case index_of adj_matrix_labels bin_label of
        Inl err \<Rightarrow> Inl err
      | Inr i \<Rightarrow> Inr (set_true m i i))"

definition get_adj_matrix ::
  "(int \<times> int) list \<Rightarrow> string list \<Rightarrow> int list \<Rightarrow> error + bool list list" where
  "get_adj_matrix edges adj_matrix_labels labels =
     (let n = length adj_matrix_labels;
          adj_matrix = replicate n (replicate n False)
      in case first adj_matrix_labels of
           Inl err \<Rightarrow> Inl err
         | Inr l0 \<Rightarrow>
          (case fold_err (edge_entry adj_matrix_labels (length l0)) edges adj_matrix of
             Inl err \<Rightarrow> Inl err
           | Inr m \<Rightarrow>
               fold_err (diag_entry adj_matrix_labels)
                 (map (\<lambda>l. zfill 9 (binary_repr l)) (np_unique labels)) m))"

section \<open>The canonical label space\<close>

definition get_fault_labels :: "nat \<Rightarrow> int list list" where
  "get_fault_labels n_faults =
     map (\<lambda>i. [wrap64 (int i + int i), wrap64 (int (i + 1) + int i)]) [0..<n_faults]"

text \<open>\<open>itertools.combinations(xs, r)\<close>: the subsequences of length \<open>r\<close>, in the order of
  their positions.\<close>

fun combinations :: "'a list \<Rightarrow> nat \<Rightarrow> 'a list list" where
  "combinations xs 0 = [[]]"
| "combinations [] (Suc r) = []"
| "combinations (x # xs) (Suc r) = map ((#) x) (combinations xs r) @ combinations xs (Suc r)"

text \<open>The builtin \<open>sum\<close> over int64 scalars.\<close>

definition py_sum :: "int list \<Rightarrow> int" where
  "py_sum xs = foldl (\<lambda>a x. wrap64 (a + x)) 0 xs"

definition comb_step :: "int list list \<Rightarrow> int list \<Rightarrow> string list \<Rightarrow> error + string list" where
  "comb_step fault_labels comb fault_labels_bin =
     (if py_sum comb \<in> set (map (\<lambda>row. wrap64 (sum_list row)) fault_labels)
      then Inr fault_labels_bin
      else if \<exists>e \<in> set comb. e < 0 then Inl ValueError
      else Inr (fault_labels_bin @
                [zfill (length fault_labels * 2) (binary_repr (py_sum (map np_pow2 comb)))]))"

definition get_fault_label_comb_bin :: "int list list \<Rightarrow> error + string list" where
  "get_fault_label_comb_bin fault_labels =
     fold_err (comb_step fault_labels)
       (combinations (concat fault_labels) (length fault_labels)) []"

definition get_lith_labels_bin :: "nat \<Rightarrow> string list" where
  "get_lith_labels_bin n_layers = map (\<lambda>i. zfill n_layers (binary_repr (2 ^ i))) [0..<n_layers]"

definition get_adj_matrix_labels :: "string list \<Rightarrow> string list \<Rightarrow> string list" where
  "get_adj_matrix_labels lith_labels_bin fault_labels_bin =
     concat (map (\<lambda>l. map (\<lambda>f. l @ f) fault_labels_bin) lith_labels_bin)"

section \<open>Notions used in the statements\<close>

text \<open>A matrix of \<open>n\<close> rows of \<open>n\<close> entries, and its symmetry.\<close>

definition square :: "nat \<Rightarrow> bool list list \<Rightarrow> bool" where
  "square n m = (length m = n \<and> (\<forall>i < n. length (m ! i) = n))"

definition symmetric :: "nat \<Rightarrow> bool list list \<Rightarrow> bool" where
  "symmetric n m = (\<forall>i < n. \<forall>j < n. m ! i ! j = m ! j ! i)"

text \<open>
  The boolean index of \<open>get_edges\<close> fits when every entry of the topology block has the shape
  of the two sub-volumes sliced for its axis, and there are at most three axes.
\<close>

definition fits :: "arr3 list \<Rightarrow> arr3 \<Rightarrow> int \<Rightarrow> bool" where
  "fits topo_block_f labels_block n_shift =
     (length topo_block_f \<le> 3 \<and>
      (\<forall>i \<in> {0..<length topo_block_f}.
         same_shape3 (shift_1 labels_block n_shift i) (topo_block_f ! i) \<and>
         same_shape3 (shift_2 labels_block n_shift i) (topo_block_f ! i)))"

text \<open>The pair of the smallest labels that the two sub-volumes of axis \<open>i\<close> hold at the voxels
  of signature \<open>s\<close>.\<close>

definition smallest_pair :: "arr3 list \<Rightarrow> arr3 \<Rightarrow> int \<Rightarrow> nat \<Rightarrow> int \<Rightarrow> int \<times> int" where
  "smallest_pair topo_block_f labels_block n_shift i s =
     (Min (set (masked (shift_1 labels_block n_shift i) (topo_block_f ! i) s)),
      Min (set (masked (shift_2 labels_block n_shift i) (topo_block_f ! i) s)))"

text \<open>The entries of the template table \<open>layer_ids\<close> that the pattern of a node matches, in
  the order of the table.\<close>

definition matches :: "nat \<Rightarrow> nat \<Rightarrow> int \<Rightarrow> (string \<times> nat) list" where
  "matches n_faults n_layers node =
     filter (\<lambda>(k, v). str_in (node_bin_nofault n_faults n_layers node) k)
       (layer_ids n_faults n_layers)"

text \<open>The number that a string of binary digits denotes.\<close>

definition bin_val :: "string \<Rightarrow> nat" where
  "bin_val s = foldl (\<lambda>a c. 2 * a + (if c = CHR ''1'' then 1 else 0)) 0 s"

text \<open>
  Two blocks of the labels 9 and 10 (one fault, lithology 1 on either side). In
  \<open>stripes_block\<close>, of shape \<open>(3, 2, 2)\<close>, the label depends on \<open>x\<close> alone: 9, 10, 9. In
  \<open>corner_block\<close>, of shape \<open>(3, 3, 2)\<close>, the label is 10 where \<open>x \<ge> 1\<close> and \<open>y = 0\<close> and 9
  elsewhere.
\<close>

definition stripes_block :: arr3 where
  "stripes_block = [[[9, 9], [9, 9]], [[10, 10], [10, 10]], [[9, 9], [9, 9]]]"

definition stripes_topo :: "arr3 list" where
  "stripes_topo = [[[[19]], [[19]]], [[[18]], [[20]]], [[[18]], [[20]]]]"

definition corner_block :: arr3 where
  "corner_block =
     [[[9, 9], [9, 9], [9, 9]], [[10, 10], [9, 9], [9, 9]], [[10, 10], [9, 9], [9, 9]]]"

definition corner_topo :: "arr3 list" where
  "corner_topo =
     [[[[19], [18]], [[20], [18]]], [[[18], [18]], [[19], [18]]], [[[18], [18]], [[20], [18]]]]"

text \<open>
  A valid input of the label encoder with at least one fault: a lithology id from 1 to
  \<open>n_layers\<close> for every voxel, and a side 1 or 2 of every fault for every voxel. The bound
  on \<open>n_faults + n_layers\<close> keeps every label below \<open>2 ^ 63\<close>, the range of int64.
\<close>

definition valid_input :: "int list \<Rightarrow> int list list \<Rightarrow> nat \<Rightarrow> bool" where
  "valid_input lb fb n_layers =
     (lb \<noteq> [] \<and> fb \<noteq> [] \<and> length fb + n_layers < 62 \<and>
      (\<forall>x \<in> set lb. 1 \<le> x \<and> x \<le> int n_layers) \<and>
      (\<forall>row \<in> set fb. length row = length lb \<and> (\<forall>x \<in> set row. x = 1 \<or> x = 2)))"

text \<open>
  A block whose planes all have \<open>ny\<close> rows of \<open>nz\<close> entries, the length of a slice of a
  sequence of length \<open>len\<close>, and the signature of two sub-volumes as \<open>get_topo_block\<close>
  computes it, \<open>np.abs(a + b)\<close> entry by entry.
\<close>

definition rect3 :: "'a list list list \<Rightarrow> nat \<Rightarrow> nat \<Rightarrow> bool" where
  "rect3 a ny nz = (\<forall>p \<in> set a. length p = ny \<and> (\<forall>r \<in> set p. length r = nz))"

definition slice_len :: "slice \<Rightarrow> nat \<Rightarrow> nat" where
  "slice_len sl len = min len (slice_stop sl len) - slice_start sl len"

definition signature3 :: "arr3 \<Rightarrow> arr3 \<Rightarrow> arr3" where
  "signature3 a b = map2 (map2 (map2 (\<lambda>x y. wrap64 \<bar>wrap64 (x + y)\<bar>))) a b"

section \<open>Evaluations of the code at concrete inputs\<close>

text \<open>
  C1. The label of every voxel has exactly \<open>n_faults + 1\<close> set bits, for every number of faults.
  The code breaks this for two faults: fault axis \<open>i\<close> is shifted by \<open>i\<close>, not by \<open>2 * i\<close> as
  in \<open>get_fault_labels\<close>, so side 2 of fault 0 and side 1 of fault 1 are both bit 1. For the
  single voxel with lithology 1 on these sides the label is \<open>2 + 2 + 16 = 20\<close>, in binary
  \<open>10100\<close>, which has two set bits where \<open>n_faults + 1 = 3\<close>.
\<close>

theorem labels_block_two_faults_bit_count:
  "snd (get_labels_block [1] [[2], [1]]) = Inr [20] \<and>
   binary_repr 20 = ''10100'' \<and> bit_count 20 = 2 \<and> length [[2 :: int], [1]] + 1 = 3"
  by code_simp

text \<open>
  C4. \<open>get_labels_block\<close> leaves its argument arrays as they were, so that a second call on
  the same arrays gives the same result. The code updates \<open>fb\<close> in place: after the call on
  \<open>lb = [1, 2]\<close>, \<open>fb = [[1, 2]]\<close> the array \<open>fb\<close> holds \<open>[[0, 1]]\<close>, and the second call
  on the same arrays raises ValueError (\<open>2 ** -1\<close>) instead of returning \<open>[9, 18]\<close> again.
\<close>

theorem labels_block_updates_fb_in_place:
  "get_labels_block [1, 2] [[1, 2]] = ([[0, 1]], Inr [9, 18]) \<and>
   get_labels_block [1, 2] [[0, 1]] = ([[- 1, 0]], Inl ValueError)"
  by code_simp

text \<open>
  C5. \<open>get_fault_label_comb_bin (get_fault_labels n_faults)\<close> is exactly the list of the
  selections of one id from each fault block. For one fault the pair is \<open>[0, 1]\<close> and the two
  selections are \<open>01\<close> and \<open>10\<close>; the code skips the selection of id 1, whose sum is the sum
  of the block, and returns \<open>01\<close> alone.
\<close>

theorem fault_label_comb_bin_one_fault:
  "get_fault_labels 1 = [[0, 1]] \<and>
   get_fault_label_comb_bin (get_fault_labels 1) = Inr [''01'']"
  by code_simp

text \<open>The documented example of two faults is what the code returns.\<close>

lemma fault_label_comb_bin_two_faults:
  "get_fault_labels 2 = [[0, 1], [2, 3]] \<and>
   get_fault_label_comb_bin (get_fault_labels 2) = Inr [''0101'', ''1001'', ''0110'', ''1010'']"
  by code_simp

text \<open>For three faults the code returns fifteen strings and not the eight selections:
  \<open>000111\<close> (ids 0, 1 and 2, two of them of block 0) is kept, and \<open>101010\<close> (ids 1, 3 and 5,
  one of each block, with the sum 9 of block 2) is skipped.\<close>

lemma fault_label_comb_bin_three_faults:
  "get_fault_label_comb_bin (get_fault_labels 3) =
     Inr [''000111'', ''001011'', ''100011'', ''010101'', ''100101'',
          ''011001'', ''101001'', ''001110'', ''010110'', ''100110'',
          ''011010'', ''110010'', ''101100'', ''110100'', ''111000'']"
  by code_simp

text \<open>
  C6. For every configuration, \<open>get_adj_matrix\<close> sets the diagonal entry of every label that
  is present and returns. The code pads the labels of the diagonal loop to the fixed width 9,
  where the loop over the edges uses the width \<open>n_entities\<close> of the canonical list. With one
  fault and two layers the canonical strings have width 4: label 9, the label of a voxel of
  lithology 1 on side 1, is the canonical string \<open>1001\<close> at index 1, and the call raises
  ValueError, since \<open>000001001\<close> is not in the list.
\<close>

theorem adj_matrix_diagonal_width_nine:
  "get_adj_matrix_labels (get_lith_labels_bin 2) [''01''] = [''0101'', ''1001''] \<and>
   snd (get_labels_block [1] [[1]]) = Inr [9] \<and>
   index_of [''0101'', ''1001''] (zfill 4 (binary_repr 9)) = Inr 1 \<and>
   get_adj_matrix [] [''0101'', ''1001''] [9] = Inl ValueError"
  by code_simp

text \<open>
  C9. For every \<open>n_shift \<ge> 1\<close> the two sub-volumes that \<open>get_edges\<close> slices are aligned with
  the cropping of \<open>get_topo_block\<close>. The crop of \<open>get_topo_block\<close> is
  \<open>slice(n_shift // 2, -n_shift // 2)\<close> and that of \<open>get_edges\<close> is
  \<open>slice(n_shift - 1, -n_shift)\<close>; they agree for \<open>n_shift = 1\<close> only. For \<open>n_shift = 2\<close> on
  a block of shape \<open>(3, 3, 3)\<close> every entry of the topology block has shape \<open>(1, 1, 1)\<close>, the
  sub-volume of \<open>get_edges\<close> has shape \<open>(1, 0, 0)\<close>, and \<open>get_edges\<close> raises IndexError.
  (For \<open>n_shift = 1\<close> the alignment holds on every rectangular block: lemmas
  \<open>topo_block_shift_one\<close> and \<open>fits_shift_one\<close> below.)
\<close>

theorem edges_slices_misfit_shift_two:
  "get_topo_block (replicate 3 (replicate 3 (replicate 3 9))) 2 =
     Inr [[[[18]]], [[[18]]], [[[18]]]] \<and>
   shift_1 (replicate 3 (replicate 3 (replicate 3 9))) 2 0 = [[]] \<and>
   get_edges [[[[18]]], [[[18]]], [[[18]]]] (replicate 3 (replicate 3 (replicate 3 9))) 2 =
     Inl IndexError"
  by code_simp

section \<open>Entries within the range of int64\<close>

lemma wrap64_add: "wrap64 (a + wrap64 b) = wrap64 (a + b)"
proof -
  have "(a + ((b + 2 ^ 63) mod 2 ^ 64 - 2 ^ 63) + 2 ^ 63) mod 2 ^ 64 =
        (a + (b + 2 ^ 63) mod 2 ^ 64) mod (2 ^ 64 :: int)"
    by (simp add: algebra_simps)
  also have "\<dots> = (a + (b + 2 ^ 63)) mod 2 ^ 64"
    by (rule mod_add_right_eq)
  finally show ?thesis by (simp add: wrap64_def algebra_simps)
qed

lemma wrap64_id: "- (2 ^ 63) \<le> x \<Longrightarrow> x < 2 ^ 63 \<Longrightarrow> wrap64 x = x"
  by (simp add: wrap64_def)

section \<open>Loops that may raise\<close>

lemma fold_err_invariant:
  assumes "fold_err f xs s = Inr s'" and "P s"
    and "\<And>x t t'. x \<in> set xs \<Longrightarrow> P t \<Longrightarrow> f x t = Inr t' \<Longrightarrow> P t'"
  shows "P s'"
  using assms
proof (induction xs arbitrary: s)
  case Nil
  then show ?case by simp
next
  case (Cons x xs)
  from Cons.prems(1) obtain t where t: "f x s = Inr t" and rest: "fold_err f xs t = Inr s'"
    by (auto split: sum.splits)
  have "P t" using Cons.prems(2,3) t by (meson list.set_intros(1))
  moreover have "\<And>y u u'. y \<in> set xs \<Longrightarrow> P u \<Longrightarrow> f y u = Inr u' \<Longrightarrow> P u'"
    using Cons.prems(3) by (meson list.set_intros(2))
  ultimately show ?case using Cons.IH [OF rest] by blast
qed

section \<open>The adjacency matrix is symmetric\<close>

lemma index_of_less: "index_of xs x = Inr i \<Longrightarrow> i < length xs"
  by (induction xs arbitrary: i) (auto split: if_splits sum.splits)

lemma index_of_nth: "index_of xs x = Inr i \<Longrightarrow> xs ! i = x"
  by (induction xs arbitrary: i) (auto split: if_splits sum.splits)

lemma square_set_true: "square n m \<Longrightarrow> square n (set_true m i j)"
  by (cases "i < length m") (auto simp: square_def set_true_def nth_list_update)

lemma set_true_nth:
  "square n m \<Longrightarrow> i < n \<Longrightarrow> j < n \<Longrightarrow> a < n \<Longrightarrow> b < n \<Longrightarrow>
   set_true m i j ! a ! b = (a = i \<and> b = j \<or> m ! a ! b)"
  by (auto simp: square_def set_true_def nth_list_update)

lemma symmetric_pair:
  assumes "square n m" "symmetric n m" "i < n" "j < n"
  shows "symmetric n (set_true (set_true m i j) j i)"
  unfolding symmetric_def
proof (intro allI impI)
  fix a b assume ab: "a < n" "b < n"
  have sq: "square n (set_true m i j)" using assms(1) by (rule square_set_true)
  have "m ! a ! b = m ! b ! a" using assms(2) ab by (simp add: symmetric_def)
  then show "set_true (set_true m i j) j i ! a ! b = set_true (set_true m i j) j i ! b ! a"
    using ab assms(3,4) by (auto simp: set_true_nth [OF sq] set_true_nth [OF assms(1)])
qed

lemma symmetric_diag:
  assumes "square n m" "symmetric n m" "i < n"
  shows "symmetric n (set_true m i i)"
  unfolding symmetric_def
proof (intro allI impI)
  fix a b assume ab: "a < n" "b < n"
  have "m ! a ! b = m ! b ! a" using assms(2) ab by (simp add: symmetric_def)
  then show "set_true m i i ! a ! b = set_true m i i ! b ! a"
    using ab assms(3) by (auto simp: set_true_nth [OF assms(1)])
qed

lemma edge_entry_keeps:
  assumes "edge_entry ls w e m = Inr m'" "square (length ls) m \<and> symmetric (length ls) m"
  shows "square (length ls) m' \<and> symmetric (length ls) m'"
proof -
  from assms(1) obtain i j where i: "index_of ls (zfill w (binary_repr (fst e))) = Inr i"
    and j: "index_of ls (zfill w (binary_repr (snd e))) = Inr j"
    and m': "m' = set_true (set_true m i j) j i"
    by (auto simp: edge_entry_def split: sum.splits)
  have "i < length ls" "j < length ls" using i j by (auto dest: index_of_less)
  then show ?thesis using assms(2) m' by (simp add: square_set_true symmetric_pair)
qed

lemma diag_entry_keeps:
  assumes "diag_entry ls s m = Inr m'" "square (length ls) m \<and> symmetric (length ls) m"
  shows "square (length ls) m' \<and> symmetric (length ls) m'"
proof -
  from assms(1) obtain i where i: "index_of ls s = Inr i" and m': "m' = set_true m i i"
    by (auto simp: diag_entry_def split: sum.splits)
  have "i < length ls" using i by (auto dest: index_of_less)
  then show ?thesis using assms(2) m' by (simp add: square_set_true symmetric_diag)
qed

lemma zeros_square_symmetric:
  "square n (replicate n (replicate n False)) \<and> symmetric n (replicate n (replicate n False))"
  by (simp add: square_def symmetric_def)

text \<open>
  C10. The matrix that \<open>get_adj_matrix\<close> returns is symmetric: whenever the call returns a
  matrix \<open>m\<close>, it has as many rows and columns as there are canonical labels, and
  \<open>m[i, j] = m[j, i]\<close> for all indices.
\<close>

theorem adj_matrix_symmetric:
  assumes "get_adj_matrix edges adj_matrix_labels labels = Inr m"
  shows "length m = length adj_matrix_labels \<and>
         (\<forall>i < length adj_matrix_labels. length (m ! i) = length adj_matrix_labels) \<and>
         (\<forall>i < length adj_matrix_labels. \<forall>j < length adj_matrix_labels. m ! i ! j = m ! j ! i)"
proof -
  let ?n = "length adj_matrix_labels"
  let ?P = "\<lambda>m. square ?n m \<and> symmetric ?n m"
  from assms obtain l0 :: string and m1 where
    m1: "fold_err (edge_entry adj_matrix_labels (length l0)) edges
           (replicate ?n (replicate ?n False)) = Inr m1"
    and m: "fold_err (diag_entry adj_matrix_labels)
           (map (\<lambda>l. zfill 9 (binary_repr l)) (np_unique labels)) m1 = Inr m"
    unfolding get_adj_matrix_def Let_def by (auto split: sum.splits)
  have "?P m1"
    by (rule fold_err_invariant [OF m1, of ?P]) (auto simp: zeros_square_symmetric dest: edge_entry_keeps)
  then have "?P m"
    by (rule fold_err_invariant [OF m, of ?P]) (auto dest: diag_entry_keeps)
  then show ?thesis by (simp add: square_def symmetric_def)
qed

theorem adj_matrix_symmetric_witness:
  "get_adj_matrix [(21, 25)] [''000010101'', ''000010110'', ''000011001''] [21, 22, 25] =
     Inr [[True, False, True], [False, True, False], [True, False, True]] \<and>
   [[True, False, True], [False, True, False], [True, False, True]] ! 0 ! 2 =
   [[True, False, True], [False, True, False], [True, False, True]] ! 2 ! 0"
proof -
  have e: "get_adj_matrix [(21, 25)] [''000010101'', ''000010110'', ''000011001''] [21, 22, 25] =
     Inr [[True, False, True], [False, True, False], [True, False, True]]"
    by code_simp
  from adj_matrix_symmetric [OF e] show ?thesis using e by simp
qed

section \<open>The edges that get_edges emits\<close>

lemma np_unique_set: "set (np_unique xs) = set xs"
  by (simp add: np_unique_def)

lemma np_unique_first: "xs \<noteq> [] \<Longrightarrow> first (np_unique xs) = Inr (Min (set xs))"
proof -
  assume "xs \<noteq> []"
  then have ne: "set xs \<noteq> {}" by simp
  have "np_unique xs = sorted_list_of_set (set xs)"
    by (simp add: np_unique_def sorted_list_of_set_sort_remdups)
  also have "\<dots> = Min (set xs) # sorted_list_of_set (set xs - {Min (set xs)})"
    using ne by (simp add: sorted_list_of_set_nonempty)
  finally show ?thesis by simp
qed

lemma same_shape3_flat_length:
  "same_shape3 a b \<Longrightarrow> length (flat3 a) = length (flat3 b)"
proof -
  have rows: "list_all2 (\<lambda>r1 r2. length r1 = length r2) p q \<Longrightarrow> length (concat p) = length (concat q)"
    for p :: "'a list list" and q :: "'b list list"
    by (induction p q rule: list_all2_induct) auto
  have "list_all2 (list_all2 (\<lambda>r1 r2. length r1 = length r2)) a b \<Longrightarrow>
        list_all2 (\<lambda>r1 r2. length r1 = length r2) (concat a) (concat b)"
    by (induction a b rule: list_all2_induct) (auto intro: list_all2_appendI)
  then show "same_shape3 a b \<Longrightarrow> length (flat3 a) = length (flat3 b)"
    by (simp add: same_shape3_def flat3_def rows)
qed

lemma masked_nonempty:
  assumes "length (flat3 a) = length (flat3 topo)" "s \<in> set (flat3 topo)"
  shows "masked a topo s \<noteq> []"
proof -
  from assms(2) obtain k where k: "k < length (flat3 topo)" "flat3 topo ! k = s"
    by (auto simp: in_set_conv_nth)
  then have "(flat3 a ! k, s) \<in> set (zip (flat3 a) (flat3 topo))"
    using assms(1) by (auto simp: in_set_zip intro!: exI [of _ k])
  then have "(flat3 a ! k, s) \<in> set (filter (\<lambda>(x, t). t = s) (zip (flat3 a) (flat3 topo)))"
    by simp
  then show ?thesis unfolding masked_def by (metis empty_iff empty_set map_is_Nil_conv)
qed

lemma edge_step_fits:
  assumes "i < 3" 
    and "same_shape3 (shift_1 lb n i) (tb ! i)" and "same_shape3 (shift_2 lb n i) (tb ! i)"
    and "s \<in> set (flat3 (tb ! i))"
  shows "edge_step lb n i (tb ! i) s es =
           Inr (if s = 0 then es else List.insert (smallest_pair tb lb n i s) es)"
proof (cases "s = 0")
  case True
  then show ?thesis by (simp add: edge_step_def)
next
  case False
  have len: "length (slicers n) = 3" by (simp add: slicers_def Let_def)
  have m1: "masked (shift_1 lb n i) (tb ! i) s \<noteq> []"
    using assms(2,4) by (simp add: masked_nonempty same_shape3_flat_length)
  have m2: "masked (shift_2 lb n i) (tb ! i) s \<noteq> []"
    using assms(3,4) by (simp add: masked_nonempty same_shape3_flat_length)
  show ?thesis
    using False assms(1,2,3) len
    by (simp add: edge_step_def bool_index_def np_unique_first [OF m1] np_unique_first [OF m2]
        smallest_pair_def)
qed

lemma fold_err_total:
  assumes "\<And>x t. x \<in> set xs \<Longrightarrow> f x t = Inr (g x t)"
  shows "fold_err f xs s = Inr (fold g xs s)"
  using assms by (induction xs arbitrary: s) auto

lemma set_fold_insert:
  "set (fold (\<lambda>s es. if s = (0::int) then es else List.insert (h s) es) ss es) =
     set es \<union> h ` (set ss - {0})"
  by (induction ss arbitrary: es) auto

lemma set_fold_union:
  assumes "\<And>p es. p \<in> set ps \<Longrightarrow> set (g p es) = set es \<union> E p"
  shows "set (fold g ps es) = set es \<union> (\<Union>p \<in> set ps. E p)"
  using assms by (induction ps arbitrary: es) auto

lemma enumerate_entry: "(i, d) \<in> set (enumerate 0 tb) \<Longrightarrow> i < length tb \<and> d = tb ! i"
  by (auto simp: in_set_enumerate_eq)

text \<open>
  C3 (as amended). \<open>get_edges\<close> has no check for a signature whose voxels carry several
  labels. Whenever the boolean index fits, the call returns, and the edges are exactly the
  pairs of the smallest label of each sub-volume at the voxels of a nonzero signature.
\<close>

theorem edges_smallest_labels:
  assumes "fits topo_block_f labels_block n_shift"
  shows "\<exists>edges. get_edges topo_block_f labels_block n_shift = Inr edges \<and>
           set edges = {smallest_pair topo_block_f labels_block n_shift i s | i s.
                          i < length topo_block_f \<and> s \<in> set (flat3 (topo_block_f ! i)) \<and> s \<noteq> 0}"
proof -
  let ?tb = topo_block_f and ?lb = labels_block and ?n = n_shift
  let ?h = "\<lambda>i s es. if s = 0 then es else List.insert (smallest_pair ?tb ?lb ?n i s) es"
  let ?g = "\<lambda>(i, d) es. fold (?h i) (np_unique (flat3 d)) es"
  have inner: "fold_err (edge_step ?lb ?n i d) (np_unique (flat3 d)) es = Inr (?g (i, d) es)"
    if "(i, d) \<in> set (enumerate 0 ?tb)" for i d es
  proof -
    from that have i: "i < length ?tb" and d: "d = ?tb ! i" by (auto dest: enumerate_entry)
    have i3: "i < 3" using i assms by (simp add: fits_def)
    have s1: "same_shape3 (shift_1 ?lb ?n i) (?tb ! i)" and s2: "same_shape3 (shift_2 ?lb ?n i) (?tb ! i)"
      using i assms by (simp_all add: fits_def)
    have "fold_err (edge_step ?lb ?n i (?tb ! i)) (np_unique (flat3 (?tb ! i))) es =
            Inr (fold (?h i) (np_unique (flat3 (?tb ! i))) es)"
      by (rule fold_err_total) (simp add: np_unique_set edge_step_fits [OF i3 s1 s2])
    then show ?thesis by (simp add: d)
  qed
  have outer: "get_edges ?tb ?lb ?n = Inr (fold ?g (enumerate 0 ?tb) [])"
    unfolding get_edges_def by (rule fold_err_total) (auto simp: inner)
  have "set (fold ?g (enumerate 0 ?tb) []) =
          set [] \<union> (\<Union>p \<in> set (enumerate 0 ?tb).
             smallest_pair ?tb ?lb ?n (fst p) ` (set (flat3 (snd p)) - {0}))"
    by (rule set_fold_union) (auto simp: set_fold_insert np_unique_set)
  also have "\<dots> = {smallest_pair ?tb ?lb ?n i s | i s.
                          i < length ?tb \<and> s \<in> set (flat3 (?tb ! i)) \<and> s \<noteq> 0}"
  proof (intro set_eqI iffI)
    fix e
    assume "e \<in> set [] \<union> (\<Union>p \<in> set (enumerate 0 ?tb).
             smallest_pair ?tb ?lb ?n (fst p) ` (set (flat3 (snd p)) - {0}))"
    then obtain i d s where "(i, d) \<in> set (enumerate 0 ?tb)" "s \<in> set (flat3 d)" "s \<noteq> 0"
      "e = smallest_pair ?tb ?lb ?n i s"
      by fastforce
    then show "e \<in> {smallest_pair ?tb ?lb ?n i s | i s.
                          i < length ?tb \<and> s \<in> set (flat3 (?tb ! i)) \<and> s \<noteq> 0}"
      by (auto dest: enumerate_entry)
  next
    fix e
    assume "e \<in> {smallest_pair ?tb ?lb ?n i s | i s.
                          i < length ?tb \<and> s \<in> set (flat3 (?tb ! i)) \<and> s \<noteq> 0}"
    then obtain i s where e: "i < length ?tb" "s \<in> set (flat3 (?tb ! i))" "s \<noteq> 0"
      "e = smallest_pair ?tb ?lb ?n i s"
      by auto
    then have "(i, ?tb ! i) \<in> set (enumerate 0 ?tb)" by (simp add: in_set_enumerate_eq)
    then show "e \<in> set [] \<union> (\<Union>p \<in> set (enumerate 0 ?tb).
             smallest_pair ?tb ?lb ?n (fst p) ` (set (flat3 (snd p)) - {0}))"
      using e by force
  qed
  finally show ?thesis using outer by simp
qed

theorem edges_smallest_labels_witness:
  "fits stripes_topo stripes_block 1 \<and>
   (\<exists>edges. get_edges stripes_topo stripes_block 1 = Inr edges \<and> (9, 9) \<in> set edges) \<and>
   smallest_pair stripes_topo stripes_block 1 0 19 = (9, 9)"
proof -
  have f: "fits stripes_topo stripes_block 1"
    by code_simp
  have p: "smallest_pair stripes_topo stripes_block 1 0 19 = (9, 9)"
    by code_simp
  have s: "0 < length stripes_topo \<and> 19 \<in> set (flat3 (stripes_topo ! 0))"
    by code_simp
  from edges_smallest_labels [OF f] obtain edges where
    e: "get_edges stripes_topo stripes_block 1 = Inr edges" and
    c: "set edges = {smallest_pair stripes_topo stripes_block 1 i s | i s.
          i < length stripes_topo \<and> s \<in> set (flat3 (stripes_topo ! i)) \<and> s \<noteq> 0}"
    by blast
  have "smallest_pair stripes_topo stripes_block 1 0 19 \<in> set edges"
    unfolding c using s by (auto intro!: exI [of _ "0 :: nat"] exI [of _ "19 :: int"])
  then show ?thesis using f p e by simp
qed

text \<open>
  C3 (as stated) fails on \<open>stripes_block\<close>: the signature 19 of the x axis occurs at the
  contact of 9 with 10 and at the contact of 10 with 9, so its voxels carry the labels 10 and
  9 in the first sub-volume and 9 and 10 in the second. \<open>get_edges\<close> returns and holds the
  pair \<open>(9, 9)\<close> for this signature.
\<close>

theorem edges_ambiguous_signature_counterexample:
  "get_topo_block stripes_block 1 = Inr stripes_topo \<and>
   bool_index (shift_1 stripes_block 1 0) (stripes_topo ! 0) 19 = Inr [10, 9] \<and>
   bool_index (shift_2 stripes_block 1 0) (stripes_topo ! 0) 19 = Inr [9, 10] \<and>
   get_edges stripes_topo stripes_block 1 = Inr [(10, 10), (9, 9)]"
  by code_simp

lemma edge_step_distinct: "edge_step lb n i d s es = Inr es' \<Longrightarrow> distinct es \<Longrightarrow> distinct es'"
  by (auto simp: edge_step_def split: if_splits sum.splits)

text \<open>
  C8 (as amended). The edges are a set of ordered tuples: no tuple \<open>(a, b)\<close> is held twice.
\<close>

theorem edges_no_repeated_tuple:
  assumes "get_edges topo_block_f labels_block n_shift = Inr edges"
  shows "distinct edges"
proof -
  have inner: "distinct es'"
    if "fold_err (edge_step labels_block n_shift i d) ss es = Inr es'" "distinct es"
    for i d ss es es'
    by (rule fold_err_invariant [OF that(1), of distinct]) (auto simp: that(2) dest: edge_step_distinct)
  show ?thesis
    by (rule fold_err_invariant [OF assms [unfolded get_edges_def], of distinct])
       (auto dest: inner)
qed

theorem edges_no_repeated_tuple_witness:
  "get_edges stripes_topo stripes_block 1 = Inr [(10, 10), (9, 9)] \<and>
   distinct [(10 :: int, 10 :: int), (9, 9)]"
proof -
  have e: "get_edges stripes_topo stripes_block 1 = Inr [(10, 10), (9, 9)]"
    by code_simp
  from edges_no_repeated_tuple [OF e] show ?thesis using e by simp
qed

text \<open>
  C8 (as stated) fails on \<open>corner_block\<close>: along x the label 10 follows 9, along y the label
  9 follows 10, and the set holds both \<open>(10, 9)\<close> and \<open>(9, 10)\<close>.
\<close>

theorem edges_both_orders_counterexample:
  "get_topo_block corner_block 1 = Inr corner_topo \<and>
   get_edges corner_topo corner_block 1 = Inr [(9, 10), (10, 10), (10, 9), (9, 9)] \<and>
   (10, 9) \<in> set [(9 :: int, 10 :: int), (10, 10), (10, 9), (9, 9)] \<and>
   (9, 10) \<in> set [(9 :: int, 10 :: int), (10, 10), (10, 9), (9, 9)]"
  by code_simp

section \<open>The lithology look-up table\<close>

lemma lot_inner:
  "map_of (foldl (\<lambda>lot (k, v). if P k then AList.update node v lot else lot) lot kvs) x =
     (if x = node \<and> filter (\<lambda>(k, v). P k) kvs \<noteq> []
      then Some (snd (last (filter (\<lambda>(k, v). P k) kvs)))
      else map_of lot x)"
proof (induction kvs rule: rev_induct)
  case Nil
  then show ?case by simp
next
  case (snoc kv kvs)
  obtain k v where kv: "kv = (k, v)" by (cases kv)
  show ?case using snoc by (auto simp: kv update_conv')
qed

lemma lot_outer:
  "map_of (foldl
       (\<lambda>lot node.
          foldl (\<lambda>lot (k, v).
                   if str_in (node_bin_nofault nf nl node) k
                   then AList.update node v lot else lot)
            lot (layer_ids nf nl)) lot nodes) x =
     (if x \<in> set nodes \<and> matches nf nl x \<noteq> []
      then Some (snd (last (matches nf nl x)))
      else map_of lot x)"
proof (induction nodes rule: rev_induct)
  case Nil
  then show ?case by simp
next
  case (snoc n nodes)
  show ?case using snoc by (auto simp: lot_inner matches_def)
qed

text \<open>
  C7 (as amended). \<open>get_lith_lot\<close> reports no defect; it returns a mapping for every input.
  A node has an entry exactly when its pattern matches a template: a node without a match is
  left out, and a node with several matches gets the value of the last one in the order of
  the table.
\<close>

theorem lith_lot_last_match:
  "map_of (get_lith_lot labels n_faults n_layers) node =
     (if node \<in> set labels \<and> matches n_faults n_layers node \<noteq> []
      then Some (snd (last (matches n_faults n_layers node)))
      else None)"
  by (simp add: get_lith_lot_def lot_outer np_unique_def)

theorem lith_lot_last_match_witness:
  "map_of (get_lith_lot [9, 17] 1 2) 9 = Some 3 \<and> matches 1 2 9 = [(''1000'', 3)] \<and>
   map_of (get_lith_lot [9, 17] 1 2) 17 = None \<and> matches 1 2 17 = []"
proof -
  have m: "matches 1 2 9 = [(''1000'', 3)] \<and> matches 1 2 17 = []"
    by code_simp
  show ?thesis
    using lith_lot_last_match [of "[9, 17]" 1 2 9] lith_lot_last_match [of "[9, 17]" 1 2 17] m
    by simp
qed

text \<open>
  C7 (as stated) fails. For one fault and two layers, label 17 (lithology 2) has the pattern
  \<open>10000\<close>, longer than every template: it matches none and is left out of the mapping in
  silence. Without faults the pattern is the empty string, which matches every template, and
  the last one is kept in silence.
\<close>

theorem lith_lot_silent_counterexample:
  "snd (get_labels_block [1, 2] [[1, 1]]) = Inr [9, 17] \<and>
   matches 1 2 17 = [] \<and> get_lith_lot [9, 17] 1 2 = [(9, 3)] \<and>
   matches 0 2 1 = [(''01'', 0), (''10'', 1)] \<and> get_lith_lot [1] 0 2 = [(1, 1)]"
  by code_simp

section \<open>Binary strings and the numbers they denote\<close>

lemma bin_val_snoc: "bin_val (s @ [c]) = 2 * bin_val s + (if c = CHR ''1'' then 1 else 0)"
  by (simp add: bin_val_def)

lemma bin_nat_small: "n < 2 \<Longrightarrow> bin_nat n = [if n = 0 then CHR ''0'' else CHR ''1'']"
  by (subst bin_nat.simps) simp

lemma bin_nat_large:
  "\<not> n < 2 \<Longrightarrow> bin_nat n = bin_nat (n div 2) @ [if n mod 2 = 0 then CHR ''0'' else CHR ''1'']"
  by (subst bin_nat.simps) simp

lemma bin_val_bin_nat: "bin_val (bin_nat n) = n"
proof (induction n rule: bin_nat.induct)
  case (1 n)
  show ?case
  proof (cases "n < 2")
    case True
    then have "n = 0 \<or> n = 1" by auto
    then show ?thesis by (auto simp: bin_nat_small bin_val_def)
  next
    case False
    then have "bin_val (bin_nat (n div 2)) = n div 2" using 1 by simp
    moreover have "2 * (n div 2) + (if n mod 2 = 0 then 0 else 1) = n"
      by presburger
    ultimately show ?thesis using False by (auto simp: bin_nat_large bin_val_snoc)
  qed
qed

lemma bin_nat_digits: "c \<in> set (bin_nat n) \<Longrightarrow> c = CHR ''0'' \<or> c = CHR ''1''"
proof (induction n rule: bin_nat.induct)
  case (1 n)
  show ?case
  proof (cases "n < 2")
    case True
    then show ?thesis using 1(2) by (auto simp: bin_nat_small split: if_splits)
  next
    case False
    then show ?thesis using 1 by (auto simp: bin_nat_large split: if_splits)
  qed
qed

lemma bin_nat_nonempty: "bin_nat n \<noteq> []"
  by (cases "n < 2") (simp_all add: bin_nat_small bin_nat_large)

lemma length_bin_nat: "n < 2 ^ w \<Longrightarrow> 0 < w \<Longrightarrow> length (bin_nat n) \<le> w"
proof (induction n arbitrary: w rule: bin_nat.induct)
  case (1 n)
  show ?case
  proof (cases "n < 2")
    case True
    then show ?thesis using 1(3) by (simp add: bin_nat_small)
  next
    case False
    then obtain w' where w: "w = Suc w'" using 1(3) by (cases w) auto
    have "0 < w'" using False 1(2) w by (cases w') auto
    moreover have "n div 2 < 2 ^ w'" using 1(2) w by auto
    ultimately have "length (bin_nat (n div 2)) \<le> w'" using 1(1) False by simp
    then show ?thesis using False w by (simp add: bin_nat_large)
  qed
qed

lemma bin_val_zeros: "foldl (\<lambda>a c. 2 * a + (if c = CHR ''1'' then 1 else 0)) (0::nat) (replicate z CHR ''0'') = 0"
  by (induction z) auto

lemma bin_val_zeros_append: "bin_val (replicate z CHR ''0'' @ s) = bin_val s"
  by (simp add: bin_val_def bin_val_zeros)

lemma bin_val_append_zeros: "bin_val (s @ replicate k CHR ''0'') = bin_val s * 2 ^ k"
proof (induction k)
  case 0
  then show ?case by simp
next
  case (Suc k)
  have "s @ replicate (Suc k) CHR ''0'' = (s @ replicate k CHR ''0'') @ [CHR ''0'']"
    by (simp add: replicate_append_same)
  then show ?case using Suc by (simp add: bin_val_snoc del: replicate_Suc append_assoc)
qed

lemma bin_val_take: "bin_val (take (length s - k) s) = bin_val s div 2 ^ k"
proof (induction s arbitrary: k rule: rev_induct)
  case Nil
  then show ?case by (simp add: bin_val_def)
next
  case (snoc c s)
  show ?case
  proof (cases k)
    case 0
    then show ?thesis by simp
  next
    case (Suc k')
    have "bin_val (take (length (s @ [c]) - k) (s @ [c])) = bin_val (take (length s - k') s)"
      using Suc by simp
    also have "\<dots> = bin_val s div 2 ^ k'" by (rule snoc)
    also have "\<dots> = (2 * bin_val s + (if c = CHR ''1'' then 1 else 0)) div 2 div 2 ^ k'"
      by simp
    also have "\<dots> = bin_val (s @ [c]) div 2 ^ k"
      by (simp add: Suc bin_val_snoc div_mult2_eq)
    finally show ?thesis .
  qed
qed

lemma zfill_bin_nat: "zfill w (bin_nat n) = replicate (w - length (bin_nat n)) CHR ''0'' @ bin_nat n"
proof -
  obtain c cs where s: "bin_nat n = c # cs" using bin_nat_nonempty [of n] by (cases "bin_nat n") auto
  then have "c \<in> set (bin_nat n)" by simp
  then have "c = CHR ''0'' \<or> c = CHR ''1''" by (rule bin_nat_digits)
  then show ?thesis by (auto simp: zfill_def s)
qed

lemma py_slice_drop_last:
  "0 < n \<Longrightarrow> py_slice (None, Some (- (int n * 2))) s = take (length s - n * 2) s"
proof -
  assume "0 < n"
  moreover have "nat (max 0 (int (length s) - int n * 2)) = length s - n * 2"
    by linarith
  ultimately show ?thesis
    by (simp add: py_slice_def slice_start_def slice_stop_def norm_idx_def)
qed

lemma str_in_same_length: "str_in sub k \<Longrightarrow> length k \<le> length sub \<Longrightarrow> sub = k"
  by (induction k) (auto split: if_splits)

lemma update_entry: "(a, b) \<in> set (AList.update k v al) \<Longrightarrow> (a, b) = (k, v) \<or> (a, b) \<in> set al"
  by (induction al) (auto split: if_splits)

lemma foldl_update_entry:
  "(k, v) \<in> set (foldl (\<lambda>d i. AList.update (key i) i d) d0 is) \<Longrightarrow>
   (k, v) \<in> set d0 \<or> (v \<in> set is \<and> k = key v)"
proof (induction "is" arbitrary: d0)
  case Nil
  then show ?case by simp
next
  case (Cons i "is")
  from Cons.IH [OF Cons.prems [simplified]] show ?case
    by (auto dest: update_entry)
qed

lemma layer_ids_entry:
  "(k, v) \<in> set (layer_ids nf nl) \<Longrightarrow>
   nf * 2 \<le> v \<and> v < nf * 2 + nl \<and> k = zfill (nf * 2 + nl) (binary_repr (2 ^ v))"
  unfolding layer_ids_def by (drule foldl_update_entry) auto

section \<open>What a matching template says about a label\<close>

lemma binary_repr_nonneg: "0 \<le> x \<Longrightarrow> binary_repr x = bin_nat (nat x)"
  by (simp add: binary_repr_def)

lemma length_zfill: "length (zfill w (bin_nat n)) = max w (length (bin_nat n))"
  by (simp add: zfill_bin_nat)

lemma match_value:
  assumes nf: "0 < nf" and l: "0 \<le> label"
    and kv: "(k, v) \<in> set (layer_ids nf nl)"
    and m: "str_in (node_bin_nofault nf nl label) k"
  shows "(nat label div 2 ^ (nf * 2)) * 2 ^ (nf * 2) = 2 ^ v \<and> nf * 2 \<le> v"
proof -
  let ?W = "nf * 2 + nl"
  let ?nb = "zfill ?W (bin_nat (nat label))"
  from layer_ids_entry [OF kv] have v: "nf * 2 \<le> v" "v < ?W"
    and k: "k = zfill ?W (binary_repr (2 ^ v))" by auto
  have k': "k = zfill ?W (bin_nat (2 ^ v))"
    using k by (simp add: binary_repr_nonneg nat_power_eq)
  have "(2::nat) ^ v < 2 ^ ?W" using v by simp
  then have "length (bin_nat (2 ^ v)) \<le> ?W" using nf by (intro length_bin_nat) auto
  then have lk: "length k = ?W" by (simp add: k' length_zfill)
  have nofault: "node_bin_nofault nf nl label =
                   take (length ?nb - nf * 2) ?nb @ replicate (nf * 2) CHR ''0''"
    using nf l by (simp add: node_bin_nofault_def Let_def binary_repr_nonneg py_slice_drop_last)
  have "?W \<le> length ?nb" by (simp add: length_zfill)
  then have "length k \<le> length (node_bin_nofault nf nl label)"
    unfolding nofault lk by simp
  with m have eq: "node_bin_nofault nf nl label = k" by (rule str_in_same_length)
  have "bin_val k = 2 ^ v" by (simp add: k' zfill_bin_nat bin_val_zeros_append bin_val_bin_nat)
  moreover have "bin_val (node_bin_nofault nf nl label) = (nat label div 2 ^ (nf * 2)) * 2 ^ (nf * 2)"
    unfolding nofault
    by (simp add: bin_val_append_zeros bin_val_take zfill_bin_nat bin_val_zeros_append bin_val_bin_nat)
  ultimately show ?thesis using eq v by simp
qed

lemma pow2_window:
  fixes l :: nat
  assumes "(l div 2 ^ d) * 2 ^ d = 2 ^ v" "d \<le> v" "2 ^ e \<le> l" "l < 2 ^ Suc e"
  shows "v = e"
proof -
  have "(l div 2 ^ d) * 2 ^ d \<le> l" by simp
  then have lo: "2 ^ v \<le> l" using assms(1) by simp
  have "l < (l div 2 ^ d) * 2 ^ d + 2 ^ d"
    by (metis add.commute mod_less_divisor mult.commute div_mult_mod_eq nat_add_left_cancel_less zero_less_numeral zero_less_power)
  then have "l < 2 ^ v + 2 ^ d" using assms(1) by simp
  also have "\<dots> \<le> 2 ^ v + 2 ^ v" using assms(2) by simp
  finally have hi: "l < 2 ^ Suc v" by simp
  from lo assms(4) have "(2::nat) ^ v < 2 ^ Suc e" by simp
  then have "v < Suc e" by (rule power_less_imp_less_exp [rotated]) simp
  moreover from hi assms(3) have "(2::nat) ^ e < 2 ^ Suc v" by simp
  then have "e < Suc v" by (rule power_less_imp_less_exp [rotated]) simp
  ultimately show ?thesis by simp
qed

section \<open>The labels of a valid input\<close>

lemma pow2_le_62: "e \<le> 62 \<Longrightarrow> (2::int) ^ e \<le> 2 ^ 62"
  by (rule power_increasing) simp_all

lemma np_pow2_small: "0 \<le> e \<Longrightarrow> e \<le> 62 \<Longrightarrow> np_pow2 e = 2 ^ nat e"
proof -
  assume "0 \<le> e" "e \<le> 62"
  then have "nat e \<le> 62" by simp
  then have "(2::int) ^ nat e \<le> 2 ^ 62" by (rule pow2_le_62)
  then have hi: "(2::int) ^ nat e < 2 ^ 63" by simp
  have "(0::int) \<le> 2 ^ nat e" by simp
  then have lo: "- (2 ^ 63) \<le> (2::int) ^ nat e" by (rule order_trans [rotated]) simp
  show ?thesis unfolding np_pow2_def using lo hi by (rule wrap64_id)
qed

lemma fault_sum_bound:
  fixes h :: "nat \<Rightarrow> int"
  assumes "\<And>i. i < n \<Longrightarrow> 0 \<le> h i \<and> h i \<le> 2 ^ Suc i"
  shows "0 \<le> sum_list (map h [0..<n]) \<and> sum_list (map h [0..<n]) + 2 \<le> 2 ^ Suc n"
  using assms
proof (induction n)
  case 0
  then show ?case by simp
next
  case (Suc n)
  have "0 \<le> sum_list (map h [0..<n]) \<and> sum_list (map h [0..<n]) + 2 \<le> 2 ^ Suc n"
    using Suc by simp
  moreover have "0 \<le> h n \<and> h n \<le> 2 ^ Suc n" using Suc.prems by simp
  ultimately show ?case by simp
qed


lemma labels_block_value:
  assumes valid: "valid_input lb fb n_layers"
  shows "\<exists>labels. snd (get_labels_block lb fb) = Inr labels \<and> length labels = length lb \<and>
           (\<forall>v < length lb. \<exists>F. 0 \<le> F \<and>
               F < 2 ^ nat (lb ! v - Min (set lb) + int (length fb) + 2) \<and>
               labels ! v = 2 ^ nat (lb ! v - Min (set lb) + int (length fb) + 2) + F)"
proof -
  define n where "n = length fb"
  define m where "m = Min (set lb)"
  define fb2 where
    "fb2 = map (\<lambda>i. map (\<lambda>x. wrap64 (x + int i)) (map (map (\<lambda>x. wrap64 (x - 1))) fb ! i)) [0..<n]"
  define lb2 where
    "lb2 = map (\<lambda>x. wrap64 (wrap64 (wrap64 (x - m) + int n) + 2)) lb"
  define labels where
    "labels = map (\<lambda>v. wrap64 (sum_list (map (\<lambda>row. np_pow2 (row ! v)) (lb2 # fb2)))) [0..<length lb]"
  from valid have ne: "lb \<noteq> []" and n0: "0 < n" and small: "n + n_layers < 62"
    and lbr: "\<And>x. x \<in> set lb \<Longrightarrow> 1 \<le> x \<and> x \<le> int n_layers"
    and fbr: "\<And>row. row \<in> set fb \<Longrightarrow> length row = length lb"
    and fbv: "\<And>row x. row \<in> set fb \<Longrightarrow> x \<in> set row \<Longrightarrow> x = 1 \<or> x = 2"
    by (auto simp: valid_input_def n_def)
  have "m \<in> set lb" unfolding m_def using ne by (intro Min_in) simp_all
  then have mr: "1 \<le> m" "m \<le> int n_layers" using lbr by auto
  have mle: "m \<le> x" if "x \<in> set lb" for x unfolding m_def using that by simp
  \<comment> \<open>the shifted fault rows\<close>
  have fb2: "fb2 = map (\<lambda>i. map (\<lambda>x. x - 1 + int i) (fb ! i)) [0..<n]"
    unfolding fb2_def
  proof (rule map_cong [OF refl])
    fix i assume "i \<in> set [0..<n]"
    then have i: "i < n" by simp
    then have row: "fb ! i \<in> set fb" by (simp add: n_def)
    have "wrap64 (wrap64 (x - 1) + int i) = x - 1 + int i" if "x \<in> set (fb ! i)" for x
    proof -
      from fbv [OF row that] have x: "x = 1 \<or> x = 2" .
      then have "wrap64 (x - 1) = x - 1" by (intro wrap64_id) auto
      moreover have "wrap64 (x - 1 + int i) = x - 1 + int i"
        using x i small by (intro wrap64_id) auto
      ultimately show ?thesis by simp
    qed
    then show "map (\<lambda>x. wrap64 (x + int i)) (map (map (\<lambda>x. wrap64 (x - 1))) fb ! i) =
               map (\<lambda>x. x - 1 + int i) (fb ! i)"
      using i by (simp add: n_def)
  qed
  \<comment> \<open>the shifted lithology ids\<close>
  have lb2: "lb2 = map (\<lambda>x. x - m + int n + 2) lb"
    unfolding lb2_def
  proof (rule map_cong [OF refl])
    fix x assume x: "x \<in> set lb"
    have r: "0 \<le> x - m" "x - m < int n_layers" using lbr [OF x] mle [OF x] mr by auto
    then have "wrap64 (x - m) = x - m" using small by (intro wrap64_id) auto
    moreover have "wrap64 (x - m + int n) = x - m + int n"
      using r small by (intro wrap64_id) auto
    moreover have "wrap64 (x - m + int n + 2) = x - m + int n + 2"
      using r small by (intro wrap64_id) auto
    ultimately show "wrap64 (wrap64 (wrap64 (x - m) + int n) + 2) = x - m + int n + 2"
      by simp
  qed
  have rows: "\<not> (\<exists>row \<in> set fb2. length row \<noteq> length lb)"
    unfolding fb2 using fbr by (auto simp: n_def)
  have nonneg: "\<not> (\<exists>row \<in> set (lb2 # fb2). \<exists>e \<in> set row. e < 0)"
  proof -
    have "0 \<le> e" if "e \<in> set lb2" for e
      using that mle unfolding lb2 by auto
    moreover have "0 \<le> e" if "row \<in> set fb2" "e \<in> set row" for row e
    proof -
      from that obtain i x where "i < n" "x \<in> set (fb ! i)" "e = x - 1 + int i"
        unfolding fb2 by auto
      moreover from this have "x = 1 \<or> x = 2" using fbv [of "fb ! i" x] by (simp add: n_def)
      ultimately show ?thesis by auto
    qed
    ultimately show ?thesis by (auto simp: not_less)
  qed
  have res: "snd (get_labels_block lb fb) = Inr labels"
    using ne rows nonneg
    by (simp add: get_labels_block_def Let_def labels_def fb2_def lb2_def n_def m_def
             del: upt_Suc)
  have len: "length labels = length lb" by (simp add: labels_def)
  have val: "\<exists>F. 0 \<le> F \<and> F < 2 ^ nat (lb ! v - m + int n + 2) \<and>
                labels ! v = 2 ^ nat (lb ! v - m + int n + 2) + F"
    if v: "v < length lb" for v
  proof -
    let ?e = "nat (lb ! v - m + int n + 2)"
    define h where "h = (\<lambda>i. (2::int) ^ nat (fb ! i ! v - 1 + int i))"
    define F where "F = sum_list (map h [0..<n])"
    have xv: "lb ! v \<in> set lb" using v by simp
    have er: "0 \<le> lb ! v - m" "lb ! v - m < int n_layers"
      using lbr [OF xv] mle [OF xv] mr by auto
    have e_hi: "?e \<le> 62" and e_lo: "Suc (Suc n) \<le> ?e" using er small by auto
    have side: "fb ! i ! v = 1 \<or> fb ! i ! v = 2" if "i < n" for i
    proof -
      have row: "fb ! i \<in> set fb" using that by (simp add: n_def)
      then have "fb ! i ! v \<in> set (fb ! i)" using fbr v by simp
      with row show ?thesis by (rule fbv)
    qed
    have hb: "0 \<le> h i \<and> h i \<le> 2 ^ Suc i" if "i < n" for i
    proof -
      have "nat (fb ! i ! v - 1 + int i) \<le> Suc i" using side [OF that] by auto
      then have "(2::int) ^ nat (fb ! i ! v - 1 + int i) \<le> 2 ^ Suc i"
        by (intro power_increasing) simp_all
      then show ?thesis by (simp add: h_def)
    qed
    from fault_sum_bound [of n h, OF hb]
    have F: "0 \<le> F" "F + 2 \<le> 2 ^ Suc n" by (simp_all add: F_def)
    have "(2::int) ^ Suc n \<le> 2 ^ ?e" using e_lo by (intro power_increasing) simp_all
    with F have Fe: "F < 2 ^ ?e" by simp
    have p1: "np_pow2 (lb2 ! v) = 2 ^ ?e"
      using v er e_hi by (simp add: lb2 np_pow2_small)
    have p2: "sum_list (map (\<lambda>row. np_pow2 (row ! v)) fb2) = F"
    proof -
      have "np_pow2 (map (\<lambda>x. x - 1 + int i) (fb ! i) ! v) = h i" if "i \<in> set [0..<n]" for i
      proof -
        from that have i: "i < n" by simp
        then have "length (fb ! i) = length lb" using fbr by (simp add: n_def)
        then have "map (\<lambda>x. x - 1 + int i) (fb ! i) ! v = fb ! i ! v - 1 + int i"
          using v by simp
        moreover have "np_pow2 (fb ! i ! v - 1 + int i) = h i"
          unfolding h_def using side [OF i] i small by (intro np_pow2_small) auto
        ultimately show ?thesis by simp
      qed
      then have eq: "map (\<lambda>i. np_pow2 (map (\<lambda>x. x - 1 + int i) (fb ! i) ! v)) [0..<n] = map h [0..<n]"
        by (intro map_cong [OF refl])
      have "sum_list (map (\<lambda>row. np_pow2 (row ! v)) fb2) =
            sum_list (map (\<lambda>i. np_pow2 (map (\<lambda>x. x - 1 + int i) (fb ! i) ! v)) [0..<n])"
        unfolding fb2 by (simp add: o_def)
      also have "\<dots> = F" unfolding F_def by (simp only: eq)
      finally show ?thesis .
    qed
    have "2 ^ ?e + F < 2 ^ Suc ?e" using Fe by simp
    also have "\<dots> \<le> (2::int) ^ 63" using e_hi by (intro power_increasing) simp_all
    finally have hi: "2 ^ ?e + F < 2 ^ 63" .
    have "(0::int) \<le> 2 ^ ?e + F" using F by simp
    then have lo: "- (2 ^ 63) \<le> 2 ^ ?e + F" by (rule order_trans [rotated]) simp
    have "labels ! v = wrap64 (2 ^ ?e + F)"
      using v by (simp add: labels_def p1 p2)
    also have "\<dots> = 2 ^ ?e + F" using lo hi by (rule wrap64_id)
    finally show ?thesis using F Fe by blast
  qed
  show ?thesis using res len val by (auto simp: n_def m_def)
qed

section \<open>Encoding a label and looking it up\<close>

lemma lot_entry_matches:
  assumes "map_of (get_lith_lot labels nf nl) node = Some x"
  shows "\<exists>k. (k, x) \<in> set (layer_ids nf nl) \<and> str_in (node_bin_nofault nf nl node) k"
proof -
  from assms have ne: "matches nf nl node \<noteq> []" and x: "x = snd (last (matches nf nl node))"
    by (auto simp: get_lith_lot_def lot_outer split: if_splits)
  from ne have "last (matches nf nl node) \<in> set (matches nf nl node)" by simp
  then have "(fst (last (matches nf nl node)), x) \<in> set (matches nf nl node)"
    by (simp add: x)
  then show ?thesis unfolding matches_def by auto
qed

text \<open>
  C2 (as amended). For every valid input with at least one fault, \<open>get_labels_block\<close>
  returns a label for every voxel, and whenever the dictionary of \<open>get_lith_lot\<close> has an
  entry for the label of a voxel, its value is the position of the lithology bit of the
  label, \<open>lb - min(lb) + n_faults + 2\<close> for the lithology id \<open>lb\<close> of the voxel.
\<close>

theorem lith_lot_shifted_id:
  assumes "valid_input lb fb n_layers"
  shows "\<exists>labels. snd (get_labels_block lb fb) = Inr labels \<and> length labels = length lb \<and>
           (\<forall>v < length lb. \<forall>x.
              map_of (get_lith_lot labels (length fb) n_layers) (labels ! v) = Some x \<longrightarrow>
              int x = lb ! v - Min (set lb) + int (length fb) + 2)"
proof -
  from labels_block_value [OF assms] obtain labels where
    res: "snd (get_labels_block lb fb) = Inr labels" and len: "length labels = length lb" and
    val: "\<And>v. v < length lb \<Longrightarrow> \<exists>F. 0 \<le> F \<and>
               F < 2 ^ nat (lb ! v - Min (set lb) + int (length fb) + 2) \<and>
               labels ! v = 2 ^ nat (lb ! v - Min (set lb) + int (length fb) + 2) + F"
    by blast
  have nf: "0 < length fb" using assms by (simp add: valid_input_def)
  have "int x = lb ! v - Min (set lb) + int (length fb) + 2"
    if v: "v < length lb"
      and look: "map_of (get_lith_lot labels (length fb) n_layers) (labels ! v) = Some x"
    for v x
  proof -
    define e where "e = nat (lb ! v - Min (set lb) + int (length fb) + 2)"
    define l where "l = nat (labels ! v)"
    from val [OF v] obtain F where F: "0 \<le> F" "F < 2 ^ e" and lv: "labels ! v = 2 ^ e + F"
      unfolding e_def by blast
    have pos: "0 \<le> labels ! v" using F lv by simp
    have il: "int l = 2 ^ e + F" using pos lv by (simp add: l_def)
    from lot_entry_matches [OF look] obtain k where
      "(k, x) \<in> set (layer_ids (length fb) n_layers)"
      "str_in (node_bin_nofault (length fb) n_layers (labels ! v)) k"
      by blast
    from match_value [OF nf pos this]
    have cut: "(l div 2 ^ (length fb * 2)) * 2 ^ (length fb * 2) = 2 ^ x" and x: "length fb * 2 \<le> x"
      by (simp_all add: l_def)
    have "int (2 ^ e) \<le> int l" using F il by simp
    then have lo: "2 ^ e \<le> l" by (simp only: of_nat_le_iff)
    have "int l < int (2 ^ Suc e)" using F il by simp
    then have hi: "l < 2 ^ Suc e" by (simp only: of_nat_less_iff)
    from pow2_window [OF cut x lo hi] have "x = e" .
    moreover have "Min (set lb) \<le> lb ! v" using v by simp
    ultimately show ?thesis by (simp add: e_def)
  qed
  with res len show ?thesis by blast
qed

theorem lith_lot_shifted_id_witness:
  "valid_input [1, 2] [[1, 1]] 2 \<and>
   snd (get_labels_block [1, 2] [[1, 1]]) = Inr [9, 17] \<and>
   map_of (get_lith_lot [9, 17] (length [[1 :: int, 1]]) 2) ([9, 17] ! 0) = Some 3 \<and>
   int 3 = [1, 2] ! 0 - Min (set [1, 2]) + int (length [[1 :: int, 1]]) + 2"
proof -
  have v: "valid_input [1, 2] [[1, 1]] 2"
    by (simp add: valid_input_def)
  have r: "snd (get_labels_block [1, 2] [[1, 1]]) = Inr [9, 17]"
    by code_simp
  have l: "map_of (get_lith_lot [9, 17] (length [[1 :: int, 1]]) 2) ([9, 17] ! 0) = Some 3"
    by code_simp
  from lith_lot_shifted_id [OF v] r l
  have "int 3 = [1, 2] ! 0 - Min (set [1, 2]) + int (length [[1 :: int, 1]]) + 2"
    by fastforce
  with v r l show ?thesis by blast
qed

text \<open>
  C2 (as stated) fails. For one fault and the lithology ids 1 and 2 the labels are 9 and 17.
  The dictionary maps 9 to 3, the position of its lithology bit, where the lithology id of the
  voxel is 1, and it has no entry for 17.
\<close>

theorem lith_lot_round_trip_counterexample:
  "snd (get_labels_block [1, 2] [[1, 1]]) = Inr [9, 17] \<and>
   map_of (get_lith_lot [9, 17] 1 2) 9 = Some 3 \<and> [1, 2 :: int] ! 0 = 1 \<and>
   map_of (get_lith_lot [9, 17] 1 2) 17 = None \<and> [1, 2 :: int] ! 1 = 2"
  by code_simp

section \<open>Slices of blocks\<close>

lemma py_slice_full: "py_slice full xs = xs"
  by (simp add: py_slice_def full_def slice_start_def slice_stop_def)

lemma py_slice_map: "py_slice s (map f xs) = map f (py_slice s xs)"
  by (simp add: py_slice_def drop_map take_map)

lemma py_slice_zip:
  "length xs = length ys \<Longrightarrow> py_slice s (zip xs ys) = zip (py_slice s xs) (py_slice s ys)"
  by (simp add: py_slice_def drop_zip take_zip)

lemma list_all2_py_slice:
  assumes "list_all2 P xs ys"
  shows "list_all2 P (py_slice s xs) (py_slice s ys)"
proof -
  have "length xs = length ys" using assms by (rule list_all2_lengthD)
  then show ?thesis
    unfolding py_slice_def using assms by (simp add: list_all2_dropI list_all2_takeI)
qed

lemma py_slice_length_cong:
  "length xs = length ys \<Longrightarrow> length (py_slice s xs) = length (py_slice s ys)"
  by (simp add: py_slice_def)


lemma same_shape3_index3:
  assumes "same_shape3 a b"
  shows "same_shape3 (index3 s a) (index3 s b)"
proof -
  obtain sx sy sz where s: "s = (sx, sy, sz)" by (cases s)
  have rows: "list_all2 (\<lambda>r1 r2. length r1 = length r2)
                (map (py_slice sz) (py_slice sy p)) (map (py_slice sz) (py_slice sy q))"
    if "list_all2 (\<lambda>r1 r2. length r1 = length r2) p q" for p :: "'a list list" and q :: "'b list list"
  proof -
    have "list_all2 (\<lambda>r1 r2. length r1 = length r2) (py_slice sy p) (py_slice sy q)"
      using that by (rule list_all2_py_slice)
    then have "list_all2 (\<lambda>r1 r2. length (py_slice sz r1) = length (py_slice sz r2))
                 (py_slice sy p) (py_slice sy q)"
      by (rule list_all2_mono) (rule py_slice_length_cong)
    then show ?thesis by (simp add: list_all2_map1 list_all2_map2)
  qed
  have "list_all2 (list_all2 (\<lambda>r1 r2. length r1 = length r2)) (py_slice sx a) (py_slice sx b)"
    using assms unfolding same_shape3_def by (rule list_all2_py_slice)
  then have "list_all2 (\<lambda>p q. list_all2 (\<lambda>r1 r2. length r1 = length r2)
                (map (py_slice sz) (py_slice sy p)) (map (py_slice sz) (py_slice sy q)))
               (py_slice sx a) (py_slice sx b)"
    by (rule list_all2_mono) (rule rows)
  then show ?thesis by (simp add: same_shape3_def index3_def s list_all2_map1 list_all2_map2)
qed

lemma slice_map2_level:
  assumes r: "list_all2 R xs ys"
    and g: "\<And>x y. R x y \<Longrightarrow> g (h x y) = h' (g x) (g y)"
  shows "map g (py_slice s (map2 h xs ys)) = map2 h' (map g (py_slice s xs)) (map g (py_slice s ys))"
proof -
  have len: "length xs = length ys" using r by (rule list_all2_lengthD)
  have r': "list_all2 R (py_slice s xs) (py_slice s ys)" using r by (rule list_all2_py_slice)
  have "map g (py_slice s (map2 h xs ys)) =
        map (\<lambda>(x, y). g (h x y)) (zip (py_slice s xs) (py_slice s ys))"
    by (simp add: py_slice_map py_slice_zip [OF len] split_def)
  also have "\<dots> = map (\<lambda>(x, y). h' (g x) (g y)) (zip (py_slice s xs) (py_slice s ys))"
  proof (rule map_cong [OF refl])
    fix z assume "z \<in> set (zip (py_slice s xs) (py_slice s ys))"
    then have "R (fst z) (snd z)" using r' by (auto simp: list_all2_iff)
    then show "(case z of (x, y) \<Rightarrow> g (h x y)) = (case z of (x, y) \<Rightarrow> h' (g x) (g y))"
      by (simp add: split_def g)
  qed
  also have "\<dots> = map2 h' (map g (py_slice s xs)) (map g (py_slice s ys))"
    by (simp add: zip_map_map split_def)
  finally show ?thesis .
qed

lemma index3_map2:
  fixes f :: "'a \<Rightarrow> 'a \<Rightarrow> 'a"
  assumes "same_shape3 a b"
  shows "index3 s (map2 (map2 (map2 f)) a b) = map2 (map2 (map2 f)) (index3 s a) (index3 s b)"
proof -
  obtain sx sy sz where s: "s = (sx, sy, sz)" by (cases s)
  have row: "py_slice sz (map2 f r1 r2) = map2 f (py_slice sz r1) (py_slice sz r2)"
    if "length r1 = length r2" for r1 r2
    using that by (simp add: py_slice_map py_slice_zip)
  have plane: "map (py_slice sz) (py_slice sy (map2 (map2 f) p q)) =
               map2 (map2 f) (map (py_slice sz) (py_slice sy p)) (map (py_slice sz) (py_slice sy q))"
    if "list_all2 (\<lambda>r1 r2. length r1 = length r2) p q" for p q
    using slice_map2_level [where R = "\<lambda>r1 r2. length r1 = length r2" and g = "py_slice sz"
        and h = "\<lambda>r1 r2. map2 f r1 r2" and h' = "\<lambda>r1 r2. map2 f r1 r2" and s = sy, OF that row]
    by simp
  have "map (\<lambda>plane. map (py_slice sz) (py_slice sy plane)) (py_slice sx (map2 (map2 (map2 f)) a b)) =
        map2 (map2 (map2 f))
          (map (\<lambda>plane. map (py_slice sz) (py_slice sy plane)) (py_slice sx a))
          (map (\<lambda>plane. map (py_slice sz) (py_slice sy plane)) (py_slice sx b))"
    using slice_map2_level [where R = "list_all2 (\<lambda>r1 r2. length r1 = length r2)"
        and g = "\<lambda>plane. map (py_slice sz) (py_slice sy plane)"
        and h = "\<lambda>p q. map2 (map2 f) p q" and h' = "\<lambda>p q. map2 (map2 f) p q" and s = sx,
        OF assms [unfolded same_shape3_def] plane]
    by simp
  then show ?thesis by (simp add: index3_def s)
qed

lemma index3_map3: "index3 s (map (map (map f)) a) = map (map (map f)) (index3 s a)"
  by (cases s) (simp add: index3_def py_slice_map o_def)

lemma index3_after_x: "index3 (full, sy, sz) (index3 (sx, full, full) a) = index3 (sx, sy, sz) a"
  by (simp add: index3_def py_slice_full py_slice_map o_def)

lemma index3_after_y: "index3 (sx, full, sz) (index3 (full, sy, full) a) = index3 (sx, sy, sz) a"
  by (simp add: index3_def py_slice_full py_slice_map o_def)

lemma index3_after_z: "index3 (sx, sy, full) (index3 (full, full, sz) a) = index3 (sx, sy, sz) a"
  by (simp add: index3_def py_slice_full py_slice_map o_def)

section \<open>The length of a slice\<close>

lemma length_py_slice: "length (py_slice s xs) = slice_len s (length xs)"
  by (simp add: py_slice_def slice_len_def min.commute)

lemma slice_len_full: "slice_len full len = len"
  by (simp add: slice_len_def full_def slice_start_def slice_stop_def)

lemma slice_len_from:
  assumes "1 \<le> n"
  shows "slice_len (Some n, None) len = len - nat n"
proof -
  have "slice_start (Some n, None) len = min len (nat n)"
    using assms by (simp add: slice_start_def norm_idx_def)
  moreover have "slice_stop (Some n, None) len = len"
    by (simp add: slice_stop_def)
  ultimately show ?thesis by (simp add: slice_len_def)
qed

lemma slice_len_upto:
  assumes "1 \<le> n"
  shows "slice_len (None, Some (- n)) len = len - nat n"
proof -
  have "slice_start (None, Some (- n)) len = 0"
    by (simp add: slice_start_def)
  moreover have "slice_stop (None, Some (- n)) len = nat (max 0 (int len + - n))"
    using assms by (simp add: slice_stop_def norm_idx_def)
  moreover have "min len (nat (max 0 (int len + - n))) = len - nat n"
    using assms by linarith
  ultimately show ?thesis by (simp only: slice_len_def minus_nat.diff_0)
qed

lemma slice_len_crop:
  assumes "1 \<le> n"
  shows "slice_len (Some (n div 2), Some (- n div 2)) len = len - nat n"
proof -
  define f where "f = n div 2"
  define c where "c = - (- n div 2)"
  have fc: "0 \<le> f" "1 \<le> c" "f + c = n"
    unfolding f_def c_def using assms by presburger+
  have start: "slice_start (Some f, Some (- c)) len = min len (nat f)"
    using fc by (simp add: slice_start_def norm_idx_def)
  have stop: "slice_stop (Some f, Some (- c)) len = nat (max 0 (int len + - c))"
    using fc by (simp add: slice_stop_def norm_idx_def)
  have "min len (nat (max 0 (int len + - c))) - min len (nat f) = len - nat (f + c)"
    using fc by linarith
  then have "slice_len (Some f, Some (- c)) len = len - nat n"
    by (simp only: slice_len_def start stop fc(3))
  then show ?thesis by (simp add: f_def c_def)
qed

section \<open>Rectangular blocks\<close>

lemma in_py_slice: "x \<in> set (py_slice s xs) \<Longrightarrow> x \<in> set xs"
  unfolding py_slice_def by (rule in_set_takeD, rule in_set_dropD)

lemma rect3_same_shape:
  assumes a: "rect3 a ny nz" and b: "rect3 b ny nz" and len: "length a = length b"
  shows "same_shape3 a b"
proof -
  have plane: "list_all2 (\<lambda>r1 r2. length r1 = length r2) p q"
    if "p \<in> set a" "q \<in> set b" for p q
  proof -
    have lp: "length p = ny" "length q = ny" using a b that by (simp_all add: rect3_def)
    have "length (p ! j) = length (q ! j)" if "j < ny" for j
    proof -
      have "p ! j \<in> set p" "q ! j \<in> set q" using that lp by simp_all
      then have "length (p ! j) = nz" "length (q ! j) = nz"
        using a b \<open>p \<in> set a\<close> \<open>q \<in> set b\<close> by (simp_all add: rect3_def)
      then show ?thesis by simp
    qed
    then show ?thesis using lp by (simp add: list_all2_conv_all_nth)
  qed
  have "list_all2 (\<lambda>r1 r2. length r1 = length r2) (a ! i) (b ! i)" if "i < length a" for i
    using that len by (intro plane) simp_all
  then show ?thesis unfolding same_shape3_def using len by (simp add: list_all2_conv_all_nth)
qed

lemma rect3_index3:
  assumes "rect3 a ny nz"
  shows "rect3 (index3 (sx, sy, sz) a) (slice_len sy ny) (slice_len sz nz)"
  unfolding rect3_def
proof (intro ballI conjI)
  fix p assume "p \<in> set (index3 (sx, sy, sz) a)"
  then obtain q where q: "q \<in> set (py_slice sx a)" and p: "p = map (py_slice sz) (py_slice sy q)"
    by (auto simp: index3_def)
  have qa: "q \<in> set a" using q by (rule in_py_slice)
  then have lq: "length q = ny" using assms by (simp add: rect3_def)
  show "length p = slice_len sy ny" by (simp add: p length_py_slice lq)
  fix r assume "r \<in> set p"
  then obtain r' where r': "r' \<in> set (py_slice sy q)" and r: "r = py_slice sz r'"
    by (auto simp: p)
  have "r' \<in> set q" using r' by (rule in_py_slice)
  then have "length r' = nz" using assms qa by (simp add: rect3_def)
  then show "length r = slice_len sz nz" by (simp add: r length_py_slice)
qed

lemma length_index3: "length (index3 (sx, sy, sz) a) = slice_len sx (length a)"
  by (simp add: index3_def length_py_slice)

section \<open>Signatures of two sub-volumes\<close>

lemma np_abs3_add:
  "np_abs3 (map2 (map2 (map2 (\<lambda>x y. wrap64 (x + y)))) a b) = signature3 a b"
  by (simp add: np_abs3_def signature3_def split_def o_def)

lemma np_add3_same:
  "same_shape3 a b \<Longrightarrow> np_add3 a b = Inr (map2 (map2 (map2 (\<lambda>x y. wrap64 (x + y)))) a b)"
  by (simp add: np_add3_def)

lemma index3_signature3:
  "same_shape3 a b \<Longrightarrow> index3 s (signature3 a b) = signature3 (index3 s a) (index3 s b)"
  unfolding signature3_def by (rule index3_map2)

lemma length_signature3: "length (signature3 a b) = min (length a) (length b)"
  by (simp add: signature3_def)

lemma rect3_signature3:
  assumes "rect3 a ny nz" "rect3 b ny nz"
  shows "rect3 (signature3 a b) ny nz"
  unfolding rect3_def
proof (intro ballI conjI)
  fix p assume "p \<in> set (signature3 a b)"
  then obtain pa pb where ab: "(pa, pb) \<in> set (zip a b)"
    and p: "p = map2 (map2 (\<lambda>x y. wrap64 \<bar>wrap64 (x + y)\<bar>)) pa pb"
    by (auto simp: signature3_def)
  have pa: "pa \<in> set a" and pb: "pb \<in> set b" using ab by (auto dest: set_zip_leftD set_zip_rightD)
  then show "length p = ny" using assms by (simp add: p rect3_def)
  fix r assume "r \<in> set p"
  then obtain ra rb where rab: "(ra, rb) \<in> set (zip pa pb)"
    and r: "r = map2 (\<lambda>x y. wrap64 \<bar>wrap64 (x + y)\<bar>) ra rb"
    by (auto simp: p)
  have "ra \<in> set pa" "rb \<in> set pb" using rab by (auto dest: set_zip_leftD set_zip_rightD)
  then show "length r = nz" using assms pa pb by (simp add: r rect3_def)
qed

section \<open>What get_topo_block returns\<close>

text \<open>
  For every \<open>n_shift \<ge> 1\<close> and every rectangular block, \<open>get_topo_block\<close> returns, and the
  entry for an axis is the signature of the block shifted along that axis and of the block
  cut at its end, both cropped with \<open>slice(n_shift // 2, -n_shift // 2)\<close> on the other axes.
\<close>

lemma topo_block_entries:
  assumes n: "1 \<le> n_shift" and rect: "rect3 labels ny nz"
  shows "get_topo_block labels n_shift =
     Inr [signature3
            (index3 ((Some n_shift, None), (Some (n_shift div 2), Some (- n_shift div 2)),
                     (Some (n_shift div 2), Some (- n_shift div 2))) labels)
            (index3 ((None, Some (- n_shift)), (Some (n_shift div 2), Some (- n_shift div 2)),
                     (Some (n_shift div 2), Some (- n_shift div 2))) labels),
          signature3
            (index3 ((Some (n_shift div 2), Some (- n_shift div 2)), (Some n_shift, None),
                     (Some (n_shift div 2), Some (- n_shift div 2))) labels)
            (index3 ((Some (n_shift div 2), Some (- n_shift div 2)), (None, Some (- n_shift)),
                     (Some (n_shift div 2), Some (- n_shift div 2))) labels),
          signature3
            (index3 ((Some (n_shift div 2), Some (- n_shift div 2)),
                     (Some (n_shift div 2), Some (- n_shift div 2)), (Some n_shift, None)) labels)
            (index3 ((Some (n_shift div 2), Some (- n_shift div 2)),
                     (Some (n_shift div 2), Some (- n_shift div 2)), (None, Some (- n_shift))) labels)]"
proof -
  define s1 :: slice where "s1 = (Some n_shift, None)"
  define s2 :: slice where "s2 = (None, Some (- n_shift))"
  define cr :: slice where "cr = (Some (n_shift div 2), Some (- n_shift div 2))"
  define k where "k = nat n_shift"
  have l1: "slice_len s1 len = len - k" and l2: "slice_len s2 len = len - k"
    and lc: "slice_len cr len = len - k" for len
    using n by (simp_all add: s1_def s2_def cr_def k_def slice_len_from slice_len_upto slice_len_crop)
  have shape: "same_shape3 (index3 (a1, a2, a3) labels) (index3 (b1, b2, b3) labels)"
    if "slice_len a1 (length labels) = slice_len b1 (length labels)"
       "slice_len a2 ny = slice_len b2 ny" "slice_len a3 nz = slice_len b3 nz"
    for a1 a2 a3 b1 b2 b3
  proof (rule rect3_same_shape)
    show "rect3 (index3 (a1, a2, a3) labels) (slice_len a2 ny) (slice_len a3 nz)"
      using rect by (rule rect3_index3)
    show "rect3 (index3 (b1, b2, b3) labels) (slice_len a2 ny) (slice_len a3 nz)"
      using rect3_index3 [OF rect, of b1 b2 b3] that by simp
    show "length (index3 (a1, a2, a3) labels) = length (index3 (b1, b2, b3) labels)"
      using that by (simp add: length_index3)
  qed
  have x: "same_shape3 (index3 (s1, full, full) labels) (index3 (s2, full, full) labels)"
    by (rule shape) (simp_all add: l1 l2)
  have y: "same_shape3 (index3 (full, s1, full) labels) (index3 (full, s2, full) labels)"
    by (rule shape) (simp_all add: l1 l2)
  have z: "same_shape3 (index3 (full, full, s1) labels) (index3 (full, full, s2) labels)"
    by (rule shape) (simp_all add: l1 l2)
  define tx where "tx = signature3 (index3 (s1, cr, cr) labels) (index3 (s2, cr, cr) labels)"
  define ty where "ty = signature3 (index3 (cr, s1, cr) labels) (index3 (cr, s2, cr) labels)"
  define tz where "tz = signature3 (index3 (cr, cr, s1) labels) (index3 (cr, cr, s2) labels)"
  have cx: "index3 (full, cr, cr)
              (signature3 (index3 (s1, full, full) labels) (index3 (s2, full, full) labels)) = tx"
    by (simp add: index3_signature3 [OF x] index3_after_x tx_def)
  have cy: "index3 (cr, full, cr)
              (signature3 (index3 (full, s1, full) labels) (index3 (full, s2, full) labels)) = ty"
    by (simp add: index3_signature3 [OF y] index3_after_y ty_def)
  have cz: "index3 (cr, cr, full)
              (signature3 (index3 (full, full, s1) labels) (index3 (full, full, s2) labels)) = tz"
    by (simp add: index3_signature3 [OF z] index3_after_z tz_def)
  have rx: "rect3 tx (ny - k) (nz - k)" and lx: "length tx = length labels - k"
    using rect3_index3 [OF rect, of s1 cr cr] rect3_index3 [OF rect, of s2 cr cr]
    by (simp_all add: tx_def rect3_signature3 lc length_signature3 length_index3 l1 l2)
  have ry: "rect3 ty (ny - k) (nz - k)" and ly: "length ty = length labels - k"
    using rect3_index3 [OF rect, of cr s1 cr] rect3_index3 [OF rect, of cr s2 cr]
    by (simp_all add: ty_def rect3_signature3 lc l1 l2 length_signature3 length_index3)
  have rz: "rect3 tz (ny - k) (nz - k)" and lz: "length tz = length labels - k"
    using rect3_index3 [OF rect, of cr cr s1] rect3_index3 [OF rect, of cr cr s2]
    by (simp_all add: tz_def rect3_signature3 lc l1 l2 length_signature3 length_index3)
  have ok: "same_shape3 tx ty \<and> same_shape3 ty tz"
    using rx ry rz lx ly lz by (simp add: rect3_same_shape)
  have "get_topo_block labels n_shift = Inr [tx, ty, tz]"
    unfolding get_topo_block_def s1_def [symmetric] s2_def [symmetric]
    by (simp only: np_add3_same [OF x] np_add3_same [OF y] np_add3_same [OF z] sum.case
          np_abs3_add Let_def cr_def [symmetric] cx cy cz ok if_True simp_thms)
  then show ?thesis by (simp add: tx_def ty_def tz_def s1_def s2_def cr_def)
qed

section \<open>The sub-volumes of get_edges for a shift of one voxel\<close>

text \<open>
  For \<open>n_shift = 1\<close> the crop \<open>slice(n_shift // 2, -n_shift // 2)\<close> of \<open>get_topo_block\<close> and
  the crop \<open>slice(n_shift - 1, -n_shift)\<close> of \<open>get_edges\<close> are both \<open>slice(0, -1)\<close>: on every
  rectangular block, the entry of the topology block for an axis is the signature of the two
  sub-volumes that \<open>get_edges\<close> slices for that axis, position by position, and the
  boolean index fits. For labels that are not negative and whose sum is below \<open>2 ^ 63\<close>
  the signature is the sum of the two labels.
\<close>

lemma signature_entry:
  assumes "0 \<le> x" "0 \<le> y" "x + y < 2 ^ 63"
  shows "wrap64 \<bar>wrap64 (x + y)\<bar> = x + y"
proof -
  have "- (2 ^ 63) \<le> x + y" using assms(1,2) by (rule_tac order_trans [of _ 0]) simp_all
  then have "wrap64 (x + y) = x + y" using assms(3) by (rule wrap64_id)
  then show ?thesis using assms \<open>- (2 ^ 63) \<le> x + y\<close> by (simp add: wrap64_id)
qed

lemma shifts_shift_one:
  "shift_1 labels 1 0 = index3 ((Some 1, None), (Some 0, Some (- 1)), (Some 0, Some (- 1))) labels"
  "shift_2 labels 1 0 = index3 ((None, Some (- 1)), (Some 0, Some (- 1)), (Some 0, Some (- 1))) labels"
  "shift_1 labels 1 (Suc 0) = index3 ((Some 0, Some (- 1)), (Some 1, None), (Some 0, Some (- 1))) labels"
  "shift_2 labels 1 (Suc 0) = index3 ((Some 0, Some (- 1)), (None, Some (- 1)), (Some 0, Some (- 1))) labels"
  "shift_1 labels 1 2 = index3 ((Some 0, Some (- 1)), (Some 0, Some (- 1)), (Some 1, None)) labels"
  "shift_2 labels 1 2 = index3 ((Some 0, Some (- 1)), (Some 0, Some (- 1)), (None, Some (- 1))) labels"
  by (simp_all add: shift_1_def shift_2_def slicers_def Let_def)

lemma topo_block_shift_one:
  assumes "rect3 labels ny nz"
  shows "get_topo_block labels 1 =
           Inr [signature3 (shift_1 labels 1 0) (shift_2 labels 1 0),
                signature3 (shift_1 labels 1 1) (shift_2 labels 1 1),
                signature3 (shift_1 labels 1 2) (shift_2 labels 1 2)]"
  using topo_block_entries [of 1, OF _ assms] by (simp add: shifts_shift_one)

lemma fits_shift_one:
  assumes rect: "rect3 labels ny nz"
  shows "fits [signature3 (shift_1 labels 1 0) (shift_2 labels 1 0),
               signature3 (shift_1 labels 1 1) (shift_2 labels 1 1),
               signature3 (shift_1 labels 1 2) (shift_2 labels 1 2)] labels 1"
proof -
  have one: "(1::int) \<le> 1" by simp
  note len = slice_len_from [OF one] slice_len_upto [OF one] slice_len_crop [OF one, simplified]
  have pair: "same_shape3 (index3 (a1, a2, a3) labels)
                (signature3 (index3 (a1, a2, a3) labels) (index3 (b1, b2, b3) labels)) \<and>
              same_shape3 (index3 (b1, b2, b3) labels)
                (signature3 (index3 (a1, a2, a3) labels) (index3 (b1, b2, b3) labels))"
    if "slice_len a1 (length labels) = slice_len b1 (length labels)"
       "slice_len a2 ny = slice_len b2 ny" "slice_len a3 nz = slice_len b3 nz"
    for a1 a2 a3 b1 b2 b3
  proof -
    have ra: "rect3 (index3 (a1, a2, a3) labels) (slice_len a2 ny) (slice_len a3 nz)"
      using rect by (rule rect3_index3)
    have rb: "rect3 (index3 (b1, b2, b3) labels) (slice_len a2 ny) (slice_len a3 nz)"
      using rect3_index3 [OF rect, of b1 b2 b3] that by simp
    have rs: "rect3 (signature3 (index3 (a1, a2, a3) labels) (index3 (b1, b2, b3) labels))
                (slice_len a2 ny) (slice_len a3 nz)"
      using ra rb by (rule rect3_signature3)
    have l: "length (index3 (a1, a2, a3) labels) = length (index3 (b1, b2, b3) labels)"
      using that by (simp add: length_index3)
    show ?thesis
      using l by (simp add: rect3_same_shape [OF ra rs] rect3_same_shape [OF rb rs] length_signature3)
  qed
  have s0: "same_shape3 (shift_1 labels 1 0) (signature3 (shift_1 labels 1 0) (shift_2 labels 1 0)) \<and>
            same_shape3 (shift_2 labels 1 0) (signature3 (shift_1 labels 1 0) (shift_2 labels 1 0))"
    unfolding shifts_shift_one by (rule pair) (simp_all add: len)
  have s1: "same_shape3 (shift_1 labels 1 (Suc 0))
              (signature3 (shift_1 labels 1 (Suc 0)) (shift_2 labels 1 (Suc 0))) \<and>
            same_shape3 (shift_2 labels 1 (Suc 0))
              (signature3 (shift_1 labels 1 (Suc 0)) (shift_2 labels 1 (Suc 0)))"
    unfolding shifts_shift_one by (rule pair) (simp_all add: len)
  have s2: "same_shape3 (shift_1 labels 1 2) (signature3 (shift_1 labels 1 2) (shift_2 labels 1 2)) \<and>
            same_shape3 (shift_2 labels 1 2) (signature3 (shift_1 labels 1 2) (shift_2 labels 1 2))"
    unfolding shifts_shift_one by (rule pair) (simp_all add: len)
  let ?tb = "[signature3 (shift_1 labels 1 0) (shift_2 labels 1 0),
              signature3 (shift_1 labels 1 1) (shift_2 labels 1 1),
              signature3 (shift_1 labels 1 2) (shift_2 labels 1 2)]"
  have "same_shape3 (shift_1 labels 1 i) (?tb ! i) \<and> same_shape3 (shift_2 labels 1 i) (?tb ! i)"
    if "i \<in> {0..<length ?tb}" for i
  proof -
    from that have "i = 0 \<or> i = Suc 0 \<or> i = 2" by auto
    then show ?thesis using s0 s1 s2 by (elim disjE) simp_all
  qed
  then show ?thesis unfolding fits_def by simp
qed

end
